theory Spec2Isabelle
  imports Main "HOL-Library.Char_ord" "HOL-Library.List_Lexorder"
begin

section \<open>Strings and arrays of the JavaScript runtime\<close>

text \<open>
  The command under verification is \<^verbatim>\<open>src/commands/plugins/inspect.ts\<close>. Its path
  arithmetic uses \<^verbatim>\<open>String.prototype.split\<close>, \<^verbatim>\<open>Array.prototype.join\<close>,
  \<^verbatim>\<open>Array.prototype.slice\<close>, \<^verbatim>\<open>Math.max\<close> and a global regular-expression match.
  Strings are lists of characters; the platform is POSIX, so \<^verbatim>\<open>path.sep\<close> is the slash.
\<close>

definition sep :: char where
  "sep = CHR ''/''"

definition node_modules :: string where
  "node_modules = ''node_modules''"

text \<open>\<^verbatim>\<open>s.split(c)\<close> for a one-character separator: never empty, \<^verbatim>\<open>''.split('/')\<close> is \<^verbatim>\<open>['']\<close>.\<close>

fun split_sep :: "char \<Rightarrow> string \<Rightarrow> string list" where
  "split_sep c [] = [[]]"
| "split_sep c (x # xs) =
     (if x = c then [] # split_sep c xs
      else (case split_sep c xs of [] \<Rightarrow> [[x]] | y # ys \<Rightarrow> (x # y) # ys))"

text \<open>\<^verbatim>\<open>parts.join(c)\<close>: the empty array joins to the empty string.\<close>

fun join_sep :: "char \<Rightarrow> string list \<Rightarrow> string" where
  "join_sep c [] = []"
| "join_sep c [x] = x"
| "join_sep c (x # y # ys) = x @ c # join_sep c (y # ys)"

text \<open>
  The numbers \<^verbatim>\<open>Math.max\<close> can return on a list of array indices: the maximum, or
  \<^verbatim>\<open>-Infinity\<close> when the list is empty.
\<close>

datatype jsnum = NegInfinity | Num int

fun Math_max :: "nat list \<Rightarrow> jsnum" where
  "Math_max [] = NegInfinity"
| "Math_max (x # xs) = Num (int (foldl max x xs))"

fun js_plus1 :: "jsnum \<Rightarrow> jsnum" where
  "js_plus1 NegInfinity = NegInfinity"
| "js_plus1 (Num k) = Num (k + 1)"

text \<open>
  \<^verbatim>\<open>parts.slice(0, e)\<close>: a negative end counts from the end of the array and is clamped
  at 0, so an end of \<^verbatim>\<open>-Infinity\<close> gives the empty array.
\<close>

fun js_slice0 :: "'a list \<Rightarrow> jsnum \<Rightarrow> 'a list" where
  "js_slice0 xs NegInfinity = []"
| "js_slice0 xs (Num k) =
     (if k < 0 then take (nat (int (length xs) + k)) xs else take (nat k) xs)"

text \<open>
  \<^verbatim>\<open>(s.match(/pat/g) || []).length\<close> for a literal pattern: the matches are found from
  left to right, each search resuming after the previous match.
\<close>

fun match_count :: "string \<Rightarrow> string \<Rightarrow> nat" where
  "match_count pat [] = 0"
| "match_count pat (x # xs) =
     (if pat \<noteq> [] \<and> take (length pat) (x # xs) = pat
      then Suc (match_count pat (drop (length pat - 1) xs))
      else match_count pat xs)"

section \<open>trimUntil\<close>

text \<open>
  \<^verbatim>\<open>
  function trimUntil(fsPath: string, part: string): string {
    const parts = fsPath.split(path.sep)
    const indices = parts.reduce((a, e, i) => (e === part ? [...a, i] : a), [] as number[])
    const partIndex = Math.max(...indices)
    if (partIndex === -1) return fsPath
    return parts.slice(0, partIndex + 1).join(path.sep)
  }
  \<close>
\<close>

definition trimUntil_indices :: "string list \<Rightarrow> string \<Rightarrow> nat list" where
  "trimUntil_indices parts part =
     foldl (\<lambda>a (i, e). if e = part then a @ [i] else a) [] (enumerate 0 parts)"

definition trimUntil :: "string \<Rightarrow> string \<Rightarrow> string" where
  "trimUntil fsPath part =
     (let parts = split_sep sep fsPath;
          indices = trimUntil_indices parts part;
          partIndex = Math_max indices
      in if partIndex = Num (- 1) then fsPath
         else join_sep sep (js_slice0 parts (js_plus1 partIndex)))"

section \<open>Paths of the Node.js runtime\<close>

text \<open>
  \<^verbatim>\<open>path.dirname\<close>, \<^verbatim>\<open>path.normalize\<close> and \<^verbatim>\<open>path.join\<close> are functions of the
  runtime's POSIX \<^verbatim>\<open>path\<close> module; they are modelled as the runtime defines them.

  \<^verbatim>\<open>path.dirname\<close> scans the path from its last character down to index 1 for the first
  slash that follows a character other than a slash; \<open>dirname_end\<close> is that scan, with
  \<open>None\<close> for the runtime's \<^verbatim>\<open>end === -1\<close>.
\<close>

fun dirname_end :: "string \<Rightarrow> nat \<Rightarrow> bool \<Rightarrow> nat option" where
  "dirname_end path 0 matchedSlash = None"
| "dirname_end path (Suc i) matchedSlash =
     (if path ! Suc i = sep
      then (if \<not> matchedSlash then Some (Suc i) else dirname_end path i matchedSlash)
      else dirname_end path i False)"

definition dirname :: "string \<Rightarrow> string" where
  "dirname path =
     (if path = [] then ''.''
      else let hasRoot = (hd path = sep) in
        case dirname_end path (length path - 1) True of
          None \<Rightarrow> if hasRoot then ''/'' else ''.''
        | Some e \<Rightarrow> if hasRoot \<and> e = 1 then ''//'' else take e path)"

text \<open>
  \<^verbatim>\<open>normalizeString\<close> of the runtime, read on the segments between slashes: empty
  segments and \<^verbatim>\<open>.\<close> are dropped, \<^verbatim>\<open>..\<close> removes the segment before it, and is kept
  only where nothing is left to remove and the path is relative.
\<close>

fun normalizeString :: "bool \<Rightarrow> string list \<Rightarrow> string list \<Rightarrow> string list" where
  "normalizeString allowAboveRoot res [] = res"
| "normalizeString allowAboveRoot res (seg # segs) =
     (if seg = [] \<or> seg = ''.'' then normalizeString allowAboveRoot res segs
      else if seg = ''..'' then
        (if res \<noteq> [] \<and> last res \<noteq> ''..''
         then normalizeString allowAboveRoot (butlast res) segs
         else if allowAboveRoot then normalizeString allowAboveRoot (res @ [''..'']) segs
         else normalizeString allowAboveRoot res segs)
      else normalizeString allowAboveRoot (res @ [seg]) segs)"

definition normalize :: "string \<Rightarrow> string" where
  "normalize path =
     (if path = [] then ''.''
      else let isAbsolute = (hd path = sep);
               trailingSeparator = (last path = sep);
               res = join_sep sep (normalizeString (\<not> isAbsolute) [] (split_sep sep path))
           in if res = [] then (if isAbsolute then ''/'' else if trailingSeparator then ''./'' else ''.'')
              else (if isAbsolute then ''/'' else []) @ res @ (if trailingSeparator then ''/'' else []))"

text \<open>\<^verbatim>\<open>path.join(...args)\<close>: the non-empty arguments, joined by slashes and normalized.\<close>

definition path_join :: "string list \<Rightarrow> string" where
  "path_join args =
     (let joined = filter (\<lambda>arg. arg \<noteq> []) args
      in if joined = [] then ''.'' else normalize (join_sep sep joined))"

section \<open>JSON values, the file system and the plugin registry\<close>

text \<open>
  What the command can throw: the rejection of a read with its error code, the
  \<^verbatim>\<open>SyntaxError\<close> of \<^verbatim>\<open>JSON.parse\<close>, a \<^verbatim>\<open>TypeError\<close> of the language, and the
  \<^verbatim>\<open>Error\<close> of \<open>findPlugin\<close> with its message.
\<close>

datatype errno = ENOENT | EACCES | EISDIR | EIO

datatype exn = FsError errno | SyntaxError | TypeError | Error string

text \<open>
  A value returned by \<^verbatim>\<open>JSON.parse\<close>. An object is the list of its own properties. The
  command never computes with a number: it tests whether it is zero and converts it to a
  string, so a number is kept as the text the language converts it to, which is
  \<^verbatim>\<open>0\<close> for the two zeros and for no other number.
\<close>

datatype json =
    JNull
  | JBool bool
  | JNumber string
  | JString string
  | JArray "json list"
  | JObject "(string \<times> json) list"

text \<open>
  \<^verbatim>\<open>!version\<close> is the negation of \<open>truthy\<close>; \<open>None\<close> is \<^verbatim>\<open>undefined\<close>, or the
  \<^verbatim>\<open>null\<close> that \<open>findDep\<close> returns when it finds nothing.
\<close>

fun truthy :: "json option \<Rightarrow> bool" where
  "truthy None = False"
| "truthy (Some JNull) = False"
| "truthy (Some (JBool b)) = b"
| "truthy (Some (JNumber n)) = (n \<noteq> ''0'')"
| "truthy (Some (JString s)) = (s \<noteq> [])"
| "truthy (Some (JArray xs)) = True"
| "truthy (Some (JObject props)) = True"

text \<open>
  The conversion of a value to a string, as a template literal and \<^verbatim>\<open>chalk\<close> perform it.
  An array is the join of its elements with commas, \<^verbatim>\<open>null\<close> elements giving the empty
  string. An object is converted by the \<^verbatim>\<open>toString\<close> it inherits, unless it has a
  property of that name of its own: a parsed value is no function, so the conversion
  throws a \<^verbatim>\<open>TypeError\<close>.
\<close>

fun to_string :: "json \<Rightarrow> exn + string"
  and join_elements :: "json list \<Rightarrow> exn + string" where
  "to_string JNull = Inr ''null''"
| "to_string (JBool b) = Inr (if b then ''true'' else ''false'')"
| "to_string (JNumber n) = Inr n"
| "to_string (JString s) = Inr s"
| "to_string (JArray xs) = join_elements xs"
| "to_string (JObject props) =
     (if ''toString'' \<in> fst ` set props then Inl TypeError else Inr ''[object Object]'')"
| "join_elements [] = Inr []"
| "join_elements (x # xs) =
     (case (if x = JNull then Inr [] else to_string x) of
        Inl e \<Rightarrow> Inl e
      | Inr s \<Rightarrow>
          if xs = [] then Inr s
          else (case join_elements xs of Inl e \<Rightarrow> Inl e | Inr r \<Rightarrow> Inr (s @ '','' @ r)))"

text \<open>
  \<^verbatim>\<open>JSON.parse(await readFile(p, 'utf8'))\<close> has three outcomes at a path: the read is
  rejected with an error code (\<open>ENOENT\<close> when the file is absent), the text is not JSON, or
  a JSON value is returned.
\<close>

datatype read_outcome = Rejects errno | NotJSON | JSON json

type_synonym fs = "string \<Rightarrow> read_outcome"

text \<open>
  The plugin as the registry of the host application supplies it, with the types the
  framework declares for it: the fields \<^verbatim>\<open>name\<close>, \<^verbatim>\<open>version\<close>, \<^verbatim>\<open>tag\<close>,
  \<^verbatim>\<open>pjson.homepage\<close>, \<^verbatim>\<open>pjson.dependencies\<close>, \<^verbatim>\<open>root\<close> and \<^verbatim>\<open>commandIDs\<close>. The
  declared dependencies are the list of the own properties of the object; a declared range
  of \<open>None\<close> is a \<^verbatim>\<open>null\<close> in the plugin's manifest.
\<close>

record plugin =
  plugin_name :: string
  plugin_version :: string
  plugin_tag :: "string option"
  pjson_homepage :: "string option"
  pjson_dependencies :: "(string \<times> string option) list"
  plugin_root :: string
  commandIDs :: "string list"

section \<open>findDep\<close>

text \<open>
  \<^verbatim>\<open>
  let start = path.join(plugin.root, 'node_modules')
  const paths = [start]
  while ((start.match(/node_modules/g) || []).length > 1) {
    start = trimUntil(path.dirname(start), 'node_modules')
    paths.push(start)
  }
  \<close>
  The loop has no bound in the source, so it is a partial function: \<open>None\<close> is a loop
  that never ends.
\<close>

partial_function (option) findDep_paths :: "string \<Rightarrow> string list \<Rightarrow> string list option" where
  "findDep_paths start paths =
     (if match_count node_modules start > 1
      then findDep_paths (trimUntil (dirname start) node_modules)
             (paths @ [trimUntil (dirname start) node_modules])
      else Some paths)"

declare findDep_paths.simps [code]

text \<open>
  The body of the \<^verbatim>\<open>try\<close> block, as far as the value of \<^verbatim>\<open>pkgJson.version\<close>:
  \<^verbatim>\<open>readFile\<close> rejects, \<^verbatim>\<open>JSON.parse\<close> throws a \<^verbatim>\<open>SyntaxError\<close>, reading a
  property of \<^verbatim>\<open>null\<close> throws a \<^verbatim>\<open>TypeError\<close>. An object yields the value of its
  property \<^verbatim>\<open>version\<close>, of whatever type, and \<^verbatim>\<open>undefined\<close> (\<open>None\<close>) when it has
  none; a boolean, a number, a string and an array have no such property.
\<close>

definition read_version :: "fs \<Rightarrow> string \<Rightarrow> exn + json option" where
  "read_version fs pkgJsonPath =
     (case fs pkgJsonPath of
        Rejects e \<Rightarrow> Inl (FsError e)
      | NotJSON \<Rightarrow> Inl SyntaxError
      | JSON pkgJson \<Rightarrow>
          (case pkgJson of
             JNull \<Rightarrow> Inl TypeError
           | JObject props \<Rightarrow> Inr (map_of props ''version'')
           | _ \<Rightarrow> Inr None))"

record findDep_result =
  pkgPath :: "string option"
  version :: "json option"

text \<open>
  \<^verbatim>\<open>
  for (const p of paths) {
    const fullPath = path.join(p, dependencyPath)
    const pkgJsonPath = path.join(fullPath, 'package.json')
    try {
      const pkgJson = JSON.parse(await readFile(pkgJsonPath, 'utf8'))
      return {pkgPath: fullPath, version: pkgJson.version as string}
    } catch {
      // try the next path
    }
  }
  return {pkgPath: null, version: null}
  \<close>
\<close>

fun findDep_search :: "fs \<Rightarrow> string \<Rightarrow> string list \<Rightarrow> findDep_result" where
  "findDep_search fs dependencyPath [] = \<lparr>pkgPath = None, version = None\<rparr>"
| "findDep_search fs dependencyPath (p # paths) =
     (let fullPath = path_join [p, dependencyPath];
          pkgJsonPath = path_join [fullPath, ''package.json'']
      in case read_version fs pkgJsonPath of
           Inr v \<Rightarrow> \<lparr>pkgPath = Some fullPath, version = v\<rparr>
         | Inl _ \<Rightarrow> findDep_search fs dependencyPath paths)"

definition findDep :: "fs \<Rightarrow> plugin \<Rightarrow> string \<Rightarrow> findDep_result option" where
  "findDep fs plugin dependency =
     (let dependencyPath = path_join (split_sep CHR ''/'' dependency);
          start = path_join [plugin_root plugin, node_modules]
      in case findDep_paths start [start] of
           None \<Rightarrow> None
         | Some paths \<Rightarrow> Some (findDep_search fs dependencyPath paths))"

section \<open>Objects\<close>

text \<open>
  A JavaScript object is the list of its own properties in the order in which the
  language enumerates them (\<^verbatim>\<open>Object.keys\<close>, \<^verbatim>\<open>JSON.stringify\<close>): first the
  properties whose name is an array index (the decimal numeral, without leading zeros, of
  an integer below \<open>2\<^sup>3\<^sup>2 - 1\<close>) in ascending numeric order, then the other properties in
  the order of their creation. \<open>obj_set ps k v\<close> is the assignment \<^verbatim>\<open>o[k] = v\<close> of an
  object \<open>v\<close>: an existing property keeps its place, and an assignment to the name
  \<^verbatim>\<open>__proto__\<close> sets the prototype of the object and creates no property.
\<close>

type_synonym 'v obj = "(string \<times> 'v) list"

definition is_digit :: "char \<Rightarrow> bool" where
  "is_digit c = (c \<in> set ''0123456789'')"

definition numeral_value :: "string \<Rightarrow> int" where
  "numeral_value k = foldl (\<lambda>n c. 10 * n + (of_char c - 48)) 0 k"

definition array_index :: "string \<Rightarrow> int option" where
  "array_index k =
     (if k \<noteq> [] \<and> list_all is_digit k \<and> (hd k \<noteq> CHR ''0'' \<or> k = ''0'')
         \<and> numeral_value k < 2 ^ 32 - 1
      then Some (numeral_value k) else None)"

fun obj_insert_index :: "int \<Rightarrow> string \<Rightarrow> 'v \<Rightarrow> 'v obj \<Rightarrow> 'v obj" where
  "obj_insert_index n k v [] = [(k, v)]"
| "obj_insert_index n k v ((k', v') # ps) =
     (case array_index k' of
        Some m \<Rightarrow> if m < n then (k', v') # obj_insert_index n k v ps
                  else (k, v) # (k', v') # ps
      | None \<Rightarrow> (k, v) # (k', v') # ps)"

definition obj_set :: "'v obj \<Rightarrow> string \<Rightarrow> 'v \<Rightarrow> 'v obj" where
  "obj_set ps k v =
     (if k = ''__proto__'' then ps
      else if k \<in> fst ` set ps
      then map (\<lambda>(k', v'). if k' = k then (k', v) else (k', v')) ps
      else case array_index k of
             Some n \<Rightarrow> obj_insert_index n k v ps
           | None \<Rightarrow> ps @ [(k, v)])"

section \<open>The tree of the report\<close>

text \<open>
  \<^verbatim>\<open>ux.tree()\<close> of the host framework: a tree holds the object \<^verbatim>\<open>nodes\<close> of its
  children, keyed by their labels, and \<^verbatim>\<open>t.insert(child)\<close> is the assignment
  \<^verbatim>\<open>t.nodes[child] = new Tree()\<close>. For the label \<^verbatim>\<open>__proto__\<close> the assignment makes the
  new tree the prototype of \<^verbatim>\<open>nodes\<close>, and reading \<^verbatim>\<open>t.nodes['__proto__']\<close> returns it:
  \<open>inherited\<close> is that tree, when there is one.

  The command reaches a node by property access, as in
  \<^verbatim>\<open>tree.nodes[pluginHeader].nodes.commands.insert(cmd)\<close>; \<open>insert_at\<close> follows such a
  list of labels and puts the changed child back where it was read. Where a label is no
  property of \<^verbatim>\<open>nodes\<close>, what is read is \<^verbatim>\<open>undefined\<close> or some inherited value that
  is no tree, and the call of \<^verbatim>\<open>insert\<close> on it throws a \<^verbatim>\<open>TypeError\<close>.
\<close>

datatype tree = Tree (nodes: "(string \<times> tree) list") (inherited: "tree option")

definition node_get :: "tree \<Rightarrow> string \<Rightarrow> tree option" where
  "node_get t k = (if k = ''__proto__'' then inherited t else map_of (nodes t) k)"

definition node_set :: "tree \<Rightarrow> string \<Rightarrow> tree \<Rightarrow> tree" where
  "node_set t k n =
     (if k = ''__proto__'' then Tree (nodes t) (Some n)
      else Tree (obj_set (nodes t) k n) (inherited t))"

definition tree_insert :: "string \<Rightarrow> tree \<Rightarrow> tree" where
  "tree_insert child t = node_set t child (Tree [] None)"

fun insert_at :: "string list \<Rightarrow> string \<Rightarrow> tree \<Rightarrow> exn + tree" where
  "insert_at [] child t = Inr (tree_insert child t)"
| "insert_at (k # ks) child t =
     (case node_get t k of
        None \<Rightarrow> Inl TypeError
      | Some n \<Rightarrow>
          (case insert_at ks child n of
             Inl e \<Rightarrow> Inl e
           | Inr n' \<Rightarrow> Inr (node_set t k n')))"

text \<open>Statements on the tree, run in order until one throws.\<close>

fun run_steps :: "(tree \<Rightarrow> exn + tree) list \<Rightarrow> tree \<Rightarrow> exn + tree" where
  "run_steps [] t = Inr t"
| "run_steps (s # ss) t = (case s t of Inl e \<Rightarrow> Inl e | Inr t' \<Rightarrow> run_steps ss t')"

text \<open>
  \<^verbatim>\<open>chalk\<close> styles a string for the terminal; what a style adds depends on the terminal,
  so the two styles the command uses are parameters. A style converts its argument to a
  string before it styles it.
\<close>

record chalk =
  bold_cyan :: "string \<Rightarrow> string"
  dim :: "string \<Rightarrow> string"

text \<open>
  Modelled from the spec: \<^verbatim>\<open>sortBy\<close> is imported from \<^verbatim>\<open>src/util.ts\<close>, which is not
  among the sources. The spec has the command identifiers and the dependency names
  ``sorted lexicographically ascending''; the order on strings is the lexicographic one
  on their character codes.
\<close>

definition sortBy :: "'a list \<Rightarrow> ('a \<Rightarrow> string) \<Rightarrow> 'a list" where
  "sortBy arr fn = sort_key fn arr"

section \<open>findPlugin and inspect\<close>

text \<open>
  The configuration of the host application, as far as \<open>findPlugin\<close> reads it: the
  list of installed plugins and the object \<^verbatim>\<open>jitPlugins\<close> of the plugins installed on
  first use, \<open>None\<close> when the configuration has none. The lookup
  \<^verbatim>\<open>jitPlugins?.[pluginName]\<close> finds the own properties of the object and, for a name it
  does not have, what every object inherits; all of that is truthy.
  \<^verbatim>\<open>
  findPlugin(pluginName: string): Plugin {
    const pluginConfig = this.config.getPluginsList().find((plg) => plg.name === pluginName)
    if (pluginConfig) return pluginConfig as Plugin
    if (this.config.pjson.oclif.jitPlugins?.[pluginName]) {
      this.warn(`Plugin ${pluginName} is a JIT plugin. It will be installed ...`)
    }
    throw new Error(`${pluginName} not installed`)
  }
  \<close>
  What the command prints is a list of outputs.
\<close>

definition Object_prototype :: "string list" where
  "Object_prototype =
     [''constructor'', ''__defineGetter__'', ''__defineSetter__'', ''hasOwnProperty'',
      ''__lookupGetter__'', ''__lookupSetter__'', ''isPrototypeOf'', ''propertyIsEnumerable'',
      ''toString'', ''valueOf'', ''__proto__'', ''toLocaleString'']"

record config =
  getPluginsList :: "plugin list"
  jitPlugins :: "(string \<times> string) list option"

datatype printed = Warn string | Display tree

definition is_jit :: "config \<Rightarrow> string \<Rightarrow> bool" where
  "is_jit cfg pluginName =
     (case jitPlugins cfg of
        None \<Rightarrow> False
      | Some props \<Rightarrow>
          (case map_of props pluginName of
             Some v \<Rightarrow> v \<noteq> []
           | None \<Rightarrow> pluginName \<in> set Object_prototype))"

definition findPlugin :: "config \<Rightarrow> string \<Rightarrow> printed list \<times> (exn + plugin)" where
  "findPlugin cfg pluginName =
     (case find (\<lambda>plg. plugin_name plg = pluginName) (getPluginsList cfg) of
        Some pluginConfig \<Rightarrow> ([], Inr pluginConfig)
      | None \<Rightarrow>
          ((if is_jit cfg pluginName
            then [Warn (''Plugin '' @ pluginName
                   @ '' is a JIT plugin. It will be installed the first time you run one of it's commands.'')]
            else []),
           Inl (Error (pluginName @ '' not installed''))))"

text \<open>
  An entry of the record \<^verbatim>\<open>deps\<close> that \<open>inspect\<close> returns:
  \<^verbatim>\<open>type Dependencies = Record<string, {from: string; version: string}>\<close>,
  where \<^verbatim>\<open>from\<close> is \<^verbatim>\<open>null\<close> (\<open>None\<close>) for a declared range of \<^verbatim>\<open>null\<close>, and
  \<^verbatim>\<open>version\<close> is the value \<open>findDep\<close> read, whatever its type.
\<close>

record dep =
  dep_from :: "string option"
  dep_version :: json

text \<open>
  Lines 90 to 104 of the source: the header of the tree, the sorted commands and the empty
  node of the dependencies. A tag or a home page is inserted when it is truthy, which for a
  string is non-empty.
  \<^verbatim>\<open>
  const tree = ux.tree()
  const pluginHeader = chalk.bold.cyan(plugin.name)
  tree.insert(pluginHeader)
  tree.nodes[pluginHeader].insert(`version ${plugin.version}`)
  if (plugin.tag) tree.nodes[pluginHeader].insert(`tag ${plugin.tag}`)
  if (plugin.pjson.homepage) tree.nodes[pluginHeader].insert(`homepage ${plugin.pjson.homepage}`)
  tree.nodes[pluginHeader].insert(`location ${plugin.root}`)
  tree.nodes[pluginHeader].insert('commands')
  const commands = sortBy(plugin.commandIDs, (c) => c)
  for (const cmd of commands) tree.nodes[pluginHeader].nodes.commands.insert(cmd)
  tree.nodes[pluginHeader].insert('dependencies')
  \<close>
\<close>

definition inspect_header :: "chalk \<Rightarrow> plugin \<Rightarrow> exn + tree" where
  "inspect_header c plugin =
     (let pluginHeader = bold_cyan c (plugin_name plugin);
          commands = sortBy (commandIDs plugin) (\<lambda>c. c)
      in run_steps
           ([insert_at [] pluginHeader,
             insert_at [pluginHeader] (''version '' @ plugin_version plugin)]
            @ (case plugin_tag plugin of
                 Some tag \<Rightarrow> if tag \<noteq> [] then [insert_at [pluginHeader] (''tag '' @ tag)] else []
               | None \<Rightarrow> [])
            @ (case pjson_homepage plugin of
                 Some homepage \<Rightarrow>
                   if homepage \<noteq> [] then [insert_at [pluginHeader] (''homepage '' @ homepage)]
                   else []
               | None \<Rightarrow> [])
            @ [insert_at [pluginHeader] (''location '' @ plugin_root plugin),
               insert_at [pluginHeader] ''commands'']
            @ map (\<lambda>cmd. insert_at [pluginHeader, ''commands''] cmd) commands
            @ [insert_at [pluginHeader] ''dependencies''])
           (Tree [] None))"

text \<open>
  The label of a resolved dependency, lines 112 to 114:
  \<^verbatim>\<open>
  const from = dependencies[dep] ?? null
  const versionMsg = chalk.dim(from ? `${from} => ${version}` : version)
  const msg = verbose ? `${dep} ${versionMsg} ${pkgPath}` : `${dep} ${versionMsg}`
  \<close>
  The version is converted to a string by the template literal or, when there is no
  declared range, by the style; the conversion can throw.
\<close>

definition declared_from :: "plugin \<Rightarrow> string \<Rightarrow> string option" where
  "declared_from plugin dep =
     (case map_of (pjson_dependencies plugin) dep of Some (Some r) \<Rightarrow> Some r | _ \<Rightarrow> None)"

definition versionMsg :: "chalk \<Rightarrow> string option \<Rightarrow> json \<Rightarrow> exn + string" where
  "versionMsg c frm v =
     (case to_string v of
        Inl e \<Rightarrow> Inl e
      | Inr s \<Rightarrow>
          Inr (dim c (case frm of
                        Some f \<Rightarrow> if f \<noteq> [] then f @ '' => '' @ s else s
                      | None \<Rightarrow> s)))"

definition msg :: "chalk \<Rightarrow> bool \<Rightarrow> string \<Rightarrow> string option \<Rightarrow> json \<Rightarrow> string option \<Rightarrow> exn + string" where
  "msg c verbose dep frm v pkgPath' =
     (case versionMsg c frm v of
        Inl e \<Rightarrow> Inl e
      | Inr m \<Rightarrow>
          Inr (if verbose
               then dep @ '' '' @ m @ '' '' @ (case pkgPath' of Some p \<Rightarrow> p | None \<Rightarrow> ''null'')
               else dep @ '' '' @ m))"

text \<open>
  The body of the loop over the sorted dependency names, on the tree and the record
  \<^verbatim>\<open>depsJson\<close> built so far; \<open>None\<close> is a \<open>findDep\<close> that does not return.
  \<^verbatim>\<open>
  const {pkgPath, version} = await this.findDep(plugin, dep)
  if (!version) continue
  ...
  tree.nodes[pluginHeader].nodes.dependencies.insert(msg)
  depsJson[dep] = {from, version}
  \<close>
\<close>

definition inspect_dep ::
  "chalk \<Rightarrow> fs \<Rightarrow> plugin \<Rightarrow> bool \<Rightarrow> string \<Rightarrow> tree \<times> dep obj \<Rightarrow> (exn + tree \<times> dep obj) option" where
  "inspect_dep c fs plugin verbose d st =
     (case findDep fs plugin d of
        None \<Rightarrow> None
      | Some r \<Rightarrow>
          if \<not> truthy (version r) then Some (Inr st)
          else
            (case version r of
               None \<Rightarrow> Some (Inr st)
             | Some v \<Rightarrow>
                 (case msg c verbose d (declared_from plugin d) v (pkgPath r) of
                    Inl e \<Rightarrow> Some (Inl e)
                  | Inr m \<Rightarrow>
                      (case insert_at [bold_cyan c (plugin_name plugin), ''dependencies''] m
                              (fst st) of
                         Inl e \<Rightarrow> Some (Inl e)
                       | Inr tree' \<Rightarrow>
                           Some (Inr (tree',
                             obj_set (snd st) d
                               \<lparr>dep_from = declared_from plugin d, dep_version = v\<rparr>))))))"

fun inspect_deps ::
  "chalk \<Rightarrow> fs \<Rightarrow> plugin \<Rightarrow> bool \<Rightarrow> string list \<Rightarrow> tree \<times> dep obj \<Rightarrow> (exn + tree \<times> dep obj) option" where
  "inspect_deps c fs plugin verbose [] st = Some (Inr st)"
| "inspect_deps c fs plugin verbose (d # deps) st =
     (case inspect_dep c fs plugin verbose d st of
        None \<Rightarrow> None
      | Some (Inl e) \<Rightarrow> Some (Inl e)
      | Some (Inr st') \<Rightarrow> inspect_deps c fs plugin verbose deps st')"

text \<open>
  \<open>inspect\<close> from its second line on, for a plugin that was found: the tree and the
  record \<^verbatim>\<open>depsJson\<close>.
  \<^verbatim>\<open>
  const dependencies = {...plugin.pjson.dependencies}
  const deps = sortBy(Object.keys(dependencies), (d) => d)
  const depsJson: Dependencies = {}
  for (const dep of deps) { ... }
  \<close>
\<close>

definition inspect_plugin ::
  "chalk \<Rightarrow> fs \<Rightarrow> plugin \<Rightarrow> bool \<Rightarrow> (exn + tree \<times> dep obj) option" where
  "inspect_plugin c fs plugin verbose =
     (case inspect_header c plugin of
        Inl e \<Rightarrow> Some (Inl e)
      | Inr tree \<Rightarrow>
          inspect_deps c fs plugin verbose
            (sortBy (map fst (pjson_dependencies plugin)) (\<lambda>d. d)) (tree, []))"

text \<open>
  \<^verbatim>\<open>
  async inspect(pluginName: string, verbose = false): Promise<PluginWithDeps> {
    const plugin = this.findPlugin(pluginName)
    ...
    if (!this.jsonEnabled()) tree.display()
    return {...plugin, deps: depsJson} as PluginWithDeps
  }
  \<close>
  The result is what was printed, and the value returned (the plugin with its record
  \<^verbatim>\<open>deps\<close>) or the error thrown.
\<close>

definition inspect ::
  "chalk \<Rightarrow> config \<Rightarrow> fs \<Rightarrow> bool \<Rightarrow> string \<Rightarrow> bool
     \<Rightarrow> (printed list \<times> (exn + plugin \<times> dep obj)) option" where
  "inspect c cfg fs jsonEnabled pluginName verbose =
     (case findPlugin cfg pluginName of
        (out, Inl e) \<Rightarrow> Some (out, Inl e)
      | (out, Inr plugin) \<Rightarrow>
          (case inspect_plugin c fs plugin verbose of
             None \<Rightarrow> None
           | Some (Inl e) \<Rightarrow> Some (out, Inl e)
           | Some (Inr (tree, depsJson)) \<Rightarrow>
               Some (out @ (if jsonEnabled then [] else [Display tree]),
                     Inr (plugin, depsJson))))"

section \<open>Notions used in the statements\<close>

text \<open>
  The search chain of a plugin is the list \<^verbatim>\<open>paths\<close> of \<open>findDep\<close>; for a container
  \<open>p\<close> of the chain, \<open>candidate\<close> is \<^verbatim>\<open>fullPath\<close> and \<open>manifest\<close> is
  \<^verbatim>\<open>pkgJsonPath\<close>. A dependency is resolved when \<open>findDep\<close> returns a truthy version,
  the condition under which \<open>inspect\<close> does not skip it.
\<close>

definition search_chain :: "plugin \<Rightarrow> string list option" where
  "search_chain plugin =
     findDep_paths (path_join [plugin_root plugin, node_modules])
       [path_join [plugin_root plugin, node_modules]]"

definition candidate :: "string \<Rightarrow> string \<Rightarrow> string" where
  "candidate p dependency = path_join [p, path_join (split_sep CHR ''/'' dependency)]"

definition manifest :: "string \<Rightarrow> string \<Rightarrow> string" where
  "manifest p dependency = path_join [candidate p dependency, ''package.json'']"

definition resolved :: "fs \<Rightarrow> plugin \<Rightarrow> string \<Rightarrow> (json \<times> string option) option" where
  "resolved fs plugin d =
     (case findDep fs plugin d of
        None \<Rightarrow> None
      | Some r \<Rightarrow>
          (case version r of
             None \<Rightarrow> None
           | Some v \<Rightarrow> if truthy (Some v) then Some (v, pkgPath r) else None))"

text \<open>
  The node reached from a tree by a list of labels, and the labels of its children as
  \<^verbatim>\<open>Object.keys\<close> lists them when the tree is displayed.
\<close>

fun subtree :: "string list \<Rightarrow> tree \<Rightarrow> tree option" where
  "subtree [] t = Some t"
| "subtree (k # ks) t = (case node_get t k of None \<Rightarrow> None | Some n \<Rightarrow> subtree ks n)"

definition labels :: "string list \<Rightarrow> tree \<Rightarrow> string list option" where
  "labels ks t = map_option (\<lambda>n. map fst (nodes n)) (subtree ks t)"

text \<open>
  The object built from the empty object by assigning the listed properties in order, and
  the resolved dependencies of a plugin in the order in which \<open>inspect\<close> visits them, each
  with its resolved version and install path. The report is printable when the version of
  every resolved dependency can be converted to a string.
\<close>

definition obj_of :: "(string \<times> 'v) list \<Rightarrow> 'v obj" where
  "obj_of kvs = foldl (\<lambda>ps (k, v). obj_set ps k v) [] kvs"

definition resolved_among :: "fs \<Rightarrow> plugin \<Rightarrow> string list \<Rightarrow> (string \<times> json \<times> string option) list" where
  "resolved_among fs plugin ds = List.map_filter (\<lambda>d. map_option (Pair d) (resolved fs plugin d)) ds"

definition resolved_deps :: "fs \<Rightarrow> plugin \<Rightarrow> (string \<times> json \<times> string option) list" where
  "resolved_deps fs plugin =
     resolved_among fs plugin (sortBy (map fst (pjson_dependencies plugin)) (\<lambda>d. d))"

definition printable :: "fs \<Rightarrow> plugin \<Rightarrow> bool" where
  "printable fs plugin = list_all (\<lambda>(d, v, p). \<not> isl (to_string v)) (resolved_deps fs plugin)"

text \<open>
  The label \<^verbatim>\<open>msg\<close> of a resolved dependency whose version can be converted to a
  string.
\<close>

definition label_of :: "chalk \<Rightarrow> bool \<Rightarrow> plugin \<Rightarrow> string \<times> json \<times> string option \<Rightarrow> string" where
  "label_of c verbose plugin x =
     (case x of (d, v, p) \<Rightarrow>
        (case msg c verbose d (declared_from plugin d) v p of Inr m \<Rightarrow> m | Inl e \<Rightarrow> []))"

section \<open>Example inputs\<close>

text \<open>
  A terminal without styles, a plugin \<^verbatim>\<open>foo\<close> installed at
  \<^verbatim>\<open>/a/node_modules/foo\<close> with given dependencies and commands, and a file system
  given by the outcomes at the paths listed, every other path being absent. A package
  manifest holds a name and a version, which is a string in \<open>package\<close>.
\<close>

definition plain :: chalk where
  "plain = \<lparr>bold_cyan = (\<lambda>s. s), dim = (\<lambda>s. s)\<rparr>"

definition foo :: "(string \<times> string option) list \<Rightarrow> string list \<Rightarrow> plugin" where
  "foo dependencies commands =
     \<lparr>plugin_name = ''foo'', plugin_version = ''1.0.0'', plugin_tag = None,
      pjson_homepage = None, pjson_dependencies = dependencies,
      plugin_root = ''/a/node_modules/foo'', commandIDs = commands\<rparr>"

definition files :: "(string \<times> read_outcome) list \<Rightarrow> fs" where
  "files outcomes = (\<lambda>p. case map_of outcomes p of Some out \<Rightarrow> out | None \<Rightarrow> Rejects ENOENT)"

definition manifest_of :: "string \<Rightarrow> json \<Rightarrow> read_outcome" where
  "manifest_of n v = JSON (JObject [(''name'', JString n), (''version'', v)])"

definition package :: "string \<Rightarrow> string \<Rightarrow> read_outcome" where
  "package n v = manifest_of n (JString v)"

section \<open>Properties of the path arithmetic\<close>

subsection \<open>split, join and the index list of trimUntil\<close>

lemma split_sep_nonempty: "split_sep c s \<noteq> []"
  by (induction s) (auto split: list.splits)

lemma join_split: "join_sep c (split_sep c s) = s"
proof (induction s)
  case Nil
  then show ?case by simp
next
  case (Cons x xs)
  then show ?case
    by (cases "split_sep c xs"; cases "tl (split_sep c xs)") (auto simp: split_sep_nonempty)
qed

lemma indices_fold:
  "foldl (\<lambda>a (i, e). if e = part then a @ [i] else a) a (enumerate n xs)
     = a @ map fst (filter (\<lambda>(i, e). e = part) (enumerate n xs))"
  by (induction xs arbitrary: a n) auto

lemma trimUntil_indices_eq:
  "trimUntil_indices parts part = map fst (filter (\<lambda>(i, e). e = part) (enumerate 0 parts))"
  unfolding trimUntil_indices_def by (simp only: indices_fold append_Nil)

lemma trimUntil_indices_empty:
  "trimUntil_indices parts part = [] \<longleftrightarrow> part \<notin> set parts"
proof -
  have "snd ` set (enumerate 0 parts) = set parts"
    by (simp only: set_map[symmetric] map_snd_enumerate)
  moreover have "part \<notin> snd ` set (enumerate 0 parts)
      \<longleftrightarrow> (\<forall>x\<in>set (enumerate 0 parts). snd x \<noteq> part)"
    unfolding image_iff by auto
  ultimately have "part \<notin> set parts \<longleftrightarrow> (\<forall>x\<in>set (enumerate 0 parts). snd x \<noteq> part)"
    by simp
  moreover have "trimUntil_indices parts part = []
      \<longleftrightarrow> (\<forall>x\<in>set (enumerate 0 parts). snd x \<noteq> part)"
    unfolding trimUntil_indices_eq by (simp add: filter_empty_conv split_beta)
  ultimately show ?thesis by simp
qed

lemma Math_max_not_minus1: "Math_max xs \<noteq> Num (- 1)"
  by (cases xs) auto

text \<open>A prefix of the parts joins to a string no longer than the whole.\<close>

lemma length_join_take: "length (join_sep c (take k xs)) \<le> length (join_sep c xs)"
proof (induction c xs arbitrary: k rule: join_sep.induct)
  case (1 c)
  then show ?case by simp
next
  case (2 c x)
  then show ?case by (cases k) auto
next
  case (3 c x y ys)
  show ?case
  proof (cases k)
    case 0
    then show ?thesis by simp
  next
    case (Suc k')
    then show ?thesis using 3[of k'] by (cases k') auto
  qed
qed

lemma length_js_slice0: "length (join_sep c (js_slice0 xs n)) \<le> length (join_sep c xs)"
  by (cases n) (auto simp: length_join_take)

lemma length_trimUntil: "length (trimUntil p part) \<le> length p"
  using length_js_slice0[of sep "split_sep sep p"]
  by (simp add: trimUntil_def Let_def join_split)

subsection \<open>dirname and the marker count\<close>

lemma match_count_le: "match_count pat s \<le> length s"
proof (induction pat s rule: match_count.induct)
  case (1 pat)
  then show ?case by simp
next
  case (2 pat x xs)
  then show ?case by (auto simp: le_diff_conv)
qed

lemma dirname_end_bound: "dirname_end path i m = Some e \<Longrightarrow> 1 \<le> e \<and> e \<le> i"
  by (induction path i m rule: dirname_end.induct) (auto split: if_splits)

lemma dirname_end_True: "dirname_end path i True = Some e \<Longrightarrow> e < i"
proof (induction i)
  case 0
  then show ?case by simp
next
  case (Suc i)
  then show ?case
    using dirname_end_bound[of path i False e] by (auto split: if_splits)
qed

lemma length_dirname:
  assumes len: "2 \<le> length p"
  shows "length (dirname p) < length p"
proof (cases "dirname_end p (length p - 1) True")
  case None
  with len show ?thesis by (auto simp: dirname_def)
next
  case (Some e)
  from dirname_end_True[OF Some] dirname_end_bound[OF Some]
  have "1 \<le> e" "e + 1 < length p"
    by auto
  with Some len show ?thesis by (auto simp: dirname_def)
qed

lemma step_shorter:
  assumes "1 < match_count node_modules start"
  shows "length (trimUntil (dirname start) node_modules) < length start"
proof -
  from assms match_count_le[of node_modules start] have "2 \<le> length start"
    by simp
  from length_dirname[OF this] length_trimUntil[of "dirname start" node_modules]
  show ?thesis by simp
qed

lemma findDep_paths_total: "\<exists>ps. findDep_paths start paths = Some ps"
proof (induction "length start" arbitrary: start paths rule: less_induct)
  case less
  show ?case
  proof (cases "1 < match_count node_modules start")
    case True
    from less[OF step_shorter[OF True]] show ?thesis
      by (subst findDep_paths.simps) (simp add: True)
  next
    case False
    then show ?thesis by (subst findDep_paths.simps) simp
  qed
qed

section \<open>Claims about trimUntil and the search chain\<close>

text \<open>
  C8. \<open>trimUntil\<close> applied to a path none of whose segments equals the marker returns the
  empty string, not the path: \<^verbatim>\<open>Math.max\<close> of no arguments is \<^verbatim>\<open>-Infinity\<close>, so
  \<^verbatim>\<open>partIndex\<close> is never \<^verbatim>\<open>-1\<close> and the branch returning \<^verbatim>\<open>fsPath\<close> is taken on no
  input.
\<close>

theorem trimUntil_without_marker:
  "(part \<notin> set (split_sep sep fsPath) \<longrightarrow> trimUntil fsPath part = [])
   \<and> Math_max (trimUntil_indices (split_sep sep fsPath) part) \<noteq> Num (- 1)"
proof (intro conjI impI)
  assume "part \<notin> set (split_sep sep fsPath)"
  then show "trimUntil fsPath part = []"
    by (simp add: trimUntil_def Let_def trimUntil_indices_empty[THEN iffD2])
next
  show "Math_max (trimUntil_indices (split_sep sep fsPath) part) \<noteq> Num (- 1)"
    by (rule Math_max_not_minus1)
qed

theorem trimUntil_without_marker_witness:
  "node_modules \<notin> set (split_sep sep ''/plugins/foo'')
   \<and> trimUntil ''/plugins/foo'' node_modules = []"
proof -
  have h: "node_modules \<notin> set (split_sep sep ''/plugins/foo'')"
    by (simp add: node_modules_def sep_def)
  from trimUntil_without_marker[of node_modules "''/plugins/foo''"] h
  have "trimUntil ''/plugins/foo'' node_modules = []"
    by blast
  with h show ?thesis by blast
qed

text \<open>
  C9. The loop of \<open>findDep\<close> that generates the search chain ends for every starting path
  and every list collected so far: an iteration runs only on a path with more than one
  marker, and it replaces that path by a strictly shorter one. So \<open>findDep\<close> returns on
  every file system, plugin and dependency name.
\<close>

theorem findDep_paths_terminates:
  "(\<exists>ps. findDep_paths start paths = Some ps)
   \<and> (1 < match_count node_modules start \<longrightarrow>
        length (trimUntil (dirname start) node_modules) < length start)
   \<and> (\<exists>r. findDep fs plugin dependency = Some r)"
proof -
  obtain ps where "findDep_paths (path_join [plugin_root plugin, node_modules])
      [path_join [plugin_root plugin, node_modules]] = Some ps"
    using findDep_paths_total by blast
  then have "\<exists>r. findDep fs plugin dependency = Some r"
    by (simp add: findDep_def Let_def)
  then show ?thesis
    using findDep_paths_total step_shorter by blast
qed

theorem findDep_paths_terminates_witness:
  "1 < match_count node_modules ''/a/node_modules/p/node_modules''
   \<and> length (trimUntil (dirname ''/a/node_modules/p/node_modules'') node_modules)
       < length ''/a/node_modules/p/node_modules''"
proof -
  have h: "1 < match_count node_modules ''/a/node_modules/p/node_modules''"
    by code_simp
  from findDep_paths_terminates[of "''/a/node_modules/p/node_modules''" "[]"] h
  have "length (trimUntil (dirname ''/a/node_modules/p/node_modules'') node_modules)
       < length ''/a/node_modules/p/node_modules''"
    by blast
  with h show ?thesis by blast
qed

section \<open>Properties of objects\<close>

lemma map_of_replace_other:
  "k' \<noteq> k \<Longrightarrow>
     map_of (map (\<lambda>(a, b). if a = k then (a, v) else (a, b)) ps) k' = map_of ps k'"
  by (induction ps) auto

lemma map_of_replace_same:
  "k \<in> fst ` set ps \<Longrightarrow>
     map_of (map (\<lambda>(a, b). if a = k then (a, v) else (a, b)) ps) k = Some v"
  by (induction ps) auto

lemma map_of_insert_index:
  "k \<notin> fst ` set ps \<Longrightarrow> map_of (obj_insert_index n k v ps) k = Some v"
  by (induction ps) (auto split: option.splits)

lemma map_of_insert_index_other:
  "k' \<noteq> k \<Longrightarrow> map_of (obj_insert_index n k v ps) k' = map_of ps k'"
  by (induction ps) (auto split: option.splits)

lemma obj_set_proto: "obj_set ps ''__proto__'' v = ps"
  by (simp add: obj_set_def)

lemma map_of_obj_set_same:
  assumes "k \<noteq> ''__proto__''"
  shows "map_of (obj_set ps k v) k = Some v"
proof (cases "k \<in> fst ` set ps")
  case True
  with assms show ?thesis by (simp add: obj_set_def map_of_replace_same)
next
  case False
  then have "map_of ps k = None" by (simp add: map_of_eq_None_iff)
  with False assms show ?thesis
    by (cases "array_index k") (simp_all add: obj_set_def map_of_insert_index map_add_def)
qed

lemma map_of_obj_set_other: "k' \<noteq> k \<Longrightarrow> map_of (obj_set ps k v) k' = map_of ps k'"
proof (cases "k \<in> fst ` set ps \<or> k = ''__proto__''")
  case True
  then show "k' \<noteq> k \<Longrightarrow> ?thesis" by (auto simp: obj_set_def map_of_replace_other)
next
  case False
  then show "k' \<noteq> k \<Longrightarrow> ?thesis"
    by (cases "array_index k")
      (auto simp: obj_set_def map_of_insert_index_other map_add_def split: option.splits)
qed

lemma map_of_obj_set:
  "k \<noteq> ''__proto__'' \<Longrightarrow> map_of (obj_set ps k v) = (map_of ps)(k \<mapsto> v)"
  by (rule ext) (simp add: map_of_obj_set_same map_of_obj_set_other)

lemma keys_obj_set:
  assumes "k \<noteq> ''__proto__''"
  shows "fst ` set (obj_set ps k v) = insert k (fst ` set ps)"
proof -
  from assms have "dom (map_of (obj_set ps k v)) = insert k (dom (map_of ps))"
    by (simp add: map_of_obj_set)
  then show ?thesis by (simp only: dom_map_of_conv_image_fst)
qed

lemma map_fst_replace:
  "map fst (map (\<lambda>(a, b). if a = k then (a, v) else (a, b)) ps) = map fst ps"
  by (induction ps) auto

lemma map_fst_obj_set:
  "array_index k = None \<Longrightarrow> k \<noteq> ''__proto__'' \<Longrightarrow>
     map fst (obj_set ps k v) = (if k \<in> set (map fst ps) then map fst ps else map fst ps @ [k])"
  by (auto simp: obj_set_def split: prod.splits)

lemma keys_insert_index:
  "fst ` set (obj_insert_index n k v ps) = insert k (fst ` set ps)"
proof (induction ps)
  case Nil
  show ?case by simp
next
  case (Cons x ps)
  obtain k' v' where x: "x = (k', v')" by (cases x)
  show ?case
  proof (cases "array_index k'")
    case None
    then show ?thesis by (simp add: x)
  next
    case (Some m)
    with Cons.IH show ?thesis
      by (cases "m < n") (simp_all add: x insert_commute)
  qed
qed

lemma distinct_insert_index:
  "k \<notin> fst ` set ps \<Longrightarrow> distinct (map fst ps) \<Longrightarrow>
     distinct (map fst (obj_insert_index n k v ps))"
proof (induction ps)
  case Nil
  then show ?case by simp
next
  case (Cons x ps)
  obtain k' v' where x: "x = (k', v')" by (cases x)
  from Cons.prems x have new: "k \<notin> fst ` set ps" and ne: "k' \<noteq> k"
    and fresh: "k' \<notin> fst ` set ps" and rest: "distinct (map fst ps)"
    by auto
  from fresh ne have inner: "k' \<notin> fst ` set (obj_insert_index n k v ps)"
    unfolding keys_insert_index by simp
  show ?case
  proof (cases "array_index k'")
    case None
    with new ne fresh rest show ?thesis by (simp add: x)
  next
    case (Some m)
    with Cons.IH[OF new rest] inner new ne fresh rest show ?thesis
      by (cases "m < n") (simp_all add: x)
  qed
qed

lemma distinct_obj_set:
  assumes "distinct (map fst ps)"
  shows "distinct (map fst (obj_set ps k v))"
proof (cases "k = ''__proto__''")
  case True
  with assms show ?thesis by (simp add: obj_set_proto)
next
  case proto: False
  show ?thesis
  proof (cases "k \<in> fst ` set ps")
    case True
    with proto have "map fst (obj_set ps k v) = map fst ps"
      unfolding obj_set_def by (simp only: if_True if_False map_fst_replace)
    with assms show ?thesis by simp
  next
    case False
    show ?thesis
    proof (cases "array_index k")
      case None
      with proto False assms show ?thesis by (simp add: obj_set_def)
    next
      case (Some n)
      with proto False distinct_insert_index[OF False assms, of n v] show ?thesis
        by (simp add: obj_set_def)
    qed
  qed
qed

lemma distinct_fold_obj_set:
  "distinct (map fst ps) \<Longrightarrow>
     distinct (map fst (foldl (\<lambda>ps (k, e). obj_set ps k e) ps kvs))"
proof (induction kvs arbitrary: ps)
  case Nil
  then show ?case by simp
next
  case (Cons x kvs)
  obtain k e where x: "x = (k, e)" by (cases x)
  from Cons.IH[OF distinct_obj_set[OF Cons.prems, of k e]] show ?case
    by (simp add: x)
qed

lemma distinct_obj_of: "distinct (map fst (obj_of kvs))"
  by (simp add: obj_of_def distinct_fold_obj_set)

lemma array_index_space:
  assumes "CHR '' '' \<in> set k"
  shows "array_index k = None"
proof -
  have "\<not> is_digit (CHR '' '')" by (simp add: is_digit_def)
  with assms have "\<not> list_all is_digit k" by (auto simp: list_all_iff)
  then show ?thesis by (simp add: array_index_def)
qed


lemma proto_no_space: "CHR '' '' \<in> set k \<Longrightarrow> k \<noteq> ''__proto__''"
  by auto

section \<open>Properties of findDep\<close>

lemma findDep_eq:
  "findDep fs plugin dep =
     map_option (findDep_search fs (path_join (split_sep CHR ''/'' dep))) (search_chain plugin)"
  by (simp add: findDep_def search_chain_def Let_def split: option.splits)

lemma search_chain_total: "\<exists>paths. search_chain plugin = Some paths"
  unfolding search_chain_def by (rule findDep_paths_total)

lemma findDep_search_first:
  assumes "i < length paths"
    and "read_version fs (path_join [path_join [paths ! i, dp], ''package.json'']) = Inr v"
    and "\<forall>j<i. \<exists>e. read_version fs (path_join [path_join [paths ! j, dp], ''package.json'']) = Inl e"
  shows "findDep_search fs dp paths = \<lparr>pkgPath = Some (path_join [paths ! i, dp]), version = v\<rparr>"
  using assms
proof (induction paths arbitrary: i)
  case Nil
  then show ?case by simp
next
  case (Cons p paths)
  show ?case
  proof (cases i)
    case 0
    with Cons.prems show ?thesis by (simp add: Let_def)
  next
    case (Suc i')
    from Cons.prems(3) Suc
    have first: "\<exists>e. read_version fs (path_join [path_join [p, dp], ''package.json'']) = Inl e"
      by auto
    have rest: "\<forall>j<i'. \<exists>e. read_version fs
        (path_join [path_join [paths ! j, dp], ''package.json'']) = Inl e"
    proof (intro allI impI)
      fix j assume "j < i'"
      then have "Suc j < i" using Suc by simp
      with Cons.prems(3) show "\<exists>e. read_version fs
        (path_join [path_join [paths ! j, dp], ''package.json'']) = Inl e"
        by fastforce
    qed
    from Cons.prems(1,2) Suc have "i' < length paths"
      and "read_version fs (path_join [path_join [paths ! i', dp], ''package.json'']) = Inr v"
      by simp_all
    from Cons.IH[OF this rest] first Suc show ?thesis
      by (auto simp: Let_def)
  qed
qed

lemma findDep_search_none:
  assumes "\<forall>p\<in>set paths. \<exists>e. read_version fs (path_join [path_join [p, dp], ''package.json'']) = Inl e"
  shows "findDep_search fs dp paths = \<lparr>pkgPath = None, version = None\<rparr>"
  using assms by (induction paths) (auto simp: Let_def)

lemma findDep_search_cong:
  assumes "\<And>q. map_sum (\<lambda>e. ()) id (read_version fs q) = map_sum (\<lambda>e. ()) id (read_version fs' q)"
  shows "findDep_search fs dp paths = findDep_search fs' dp paths"
proof (induction paths)
  case Nil
  then show ?case by simp
next
  case (Cons p paths)
  from assms[of "path_join [path_join [p, dp], ''package.json'']"] Cons show ?case
    by (cases "read_version fs (path_join [path_join [p, dp], ''package.json''])";
        cases "read_version fs' (path_join [path_join [p, dp], ''package.json''])")
       (simp_all add: Let_def)
qed

lemma findDep_cong:
  assumes "\<And>q. map_sum (\<lambda>e. ()) id (read_version fs q) = map_sum (\<lambda>e. ()) id (read_version fs' q)"
  shows "findDep fs plugin dep = findDep fs' plugin dep"
proof -
  have "findDep_search fs (path_join (split_sep CHR ''/'' dep))
      = findDep_search fs' (path_join (split_sep CHR ''/'' dep))"
    by (rule ext) (rule findDep_search_cong[OF assms])
  then show ?thesis by (simp add: findDep_eq)
qed

section \<open>Claims about findDep\<close>

text \<open>
  C2, as amended. \<open>findDep\<close> raises nothing: it returns a result on every file system,
  and a read that is rejected at a candidate manifest with whatever error code (a denied
  permission as well as an absent file) is caught by the \<^verbatim>\<open>catch\<close> of the loop, so the
  result is the one obtained when each such file is absent.
\<close>

theorem findDep_swallows_io_errors:
  "(\<exists>r. findDep fs plugin dep = Some r)
   \<and> findDep fs plugin dep
       = findDep (\<lambda>p. case fs p of Rejects e \<Rightarrow> Rejects ENOENT | out \<Rightarrow> out) plugin dep"
proof
  from search_chain_total[of plugin] show "\<exists>r. findDep fs plugin dep = Some r"
    by (auto simp: findDep_eq)
next
  show "findDep fs plugin dep
       = findDep (\<lambda>p. case fs p of Rejects e \<Rightarrow> Rejects ENOENT | out \<Rightarrow> out) plugin dep"
    by (rule findDep_cong) (simp add: read_version_def split: read_outcome.splits json.splits)
qed

text \<open>
  C2 as stated fails: with a permission error at the manifest of the inner candidate and a
  valid manifest at the outer one, \<open>findDep\<close> raises no error and goes on to return the
  outer candidate.
\<close>

theorem io_error_counterexample:
  "files [(''/a/node_modules/foo/node_modules/bar/package.json'', Rejects EACCES),
          (''/a/node_modules/bar/package.json'', package ''bar'' ''1.2.0'')]
       ''/a/node_modules/foo/node_modules/bar/package.json'' = Rejects EACCES
   \<and> findDep (files [(''/a/node_modules/foo/node_modules/bar/package.json'', Rejects EACCES),
                     (''/a/node_modules/bar/package.json'', package ''bar'' ''1.2.0'')])
         (foo [(''bar'', Some ''^1.0.0'')] []) ''bar''
       = Some \<lparr>pkgPath = Some ''/a/node_modules/bar'', version = Some (JString ''1.2.0'')\<rparr>"
  by code_simp

text \<open>
  C3. Innermost wins: when the manifest of the \<open>i\<close>-th container of the search chain can
  be read and parsed and no manifest of an earlier container can, \<open>findDep\<close> returns the
  candidate of that container with the version its manifest holds. Nothing is asked of the
  later containers: they may hold valid manifests with other versions, and none of them is
  returned.
\<close>

theorem findDep_innermost_wins:
  assumes "search_chain plugin = Some paths"
    and "i < length paths"
    and "read_version fs (manifest (paths ! i) dep) = Inr v"
    and "\<forall>j<i. \<exists>e. read_version fs (manifest (paths ! j) dep) = Inl e"
  shows "findDep fs plugin dep
           = Some \<lparr>pkgPath = Some (candidate (paths ! i) dep), version = v\<rparr>"
  using assms findDep_search_first[of i paths fs "path_join (split_sep CHR ''/'' dep)" v]
  by (simp add: findDep_eq manifest_def candidate_def)

theorem findDep_innermost_wins_witness:
  "search_chain (foo [(''bar'', Some ''^1.0.0'')] [])
     = Some [''/a/node_modules/foo/node_modules'', ''/a/node_modules'']
   \<and> read_version
        (files [(''/a/node_modules/foo/node_modules/bar/package.json'', package ''bar'' ''2.0.0''),
                (''/a/node_modules/bar/package.json'', package ''bar'' ''1.2.0'')])
        (manifest ''/a/node_modules/foo/node_modules'' ''bar'') = Inr (Some (JString ''2.0.0''))
   \<and> read_version
        (files [(''/a/node_modules/foo/node_modules/bar/package.json'', package ''bar'' ''2.0.0''),
                (''/a/node_modules/bar/package.json'', package ''bar'' ''1.2.0'')])
        (manifest ''/a/node_modules'' ''bar'') = Inr (Some (JString ''1.2.0''))
   \<and> findDep
        (files [(''/a/node_modules/foo/node_modules/bar/package.json'', package ''bar'' ''2.0.0''),
                (''/a/node_modules/bar/package.json'', package ''bar'' ''1.2.0'')])
        (foo [(''bar'', Some ''^1.0.0'')] []) ''bar''
       = Some \<lparr>pkgPath = Some ''/a/node_modules/foo/node_modules/bar'', version = Some (JString ''2.0.0'')\<rparr>"
proof -
  let ?fs = "files [(''/a/node_modules/foo/node_modules/bar/package.json'', package ''bar'' ''2.0.0''),
                (''/a/node_modules/bar/package.json'', package ''bar'' ''1.2.0'')]"
  let ?paths = "[''/a/node_modules/foo/node_modules'', ''/a/node_modules'']"
  have chain: "search_chain (foo [(''bar'', Some ''^1.0.0'')] []) = Some ?paths"
    by code_simp
  have inner: "read_version ?fs (manifest (?paths ! 0) ''bar'') = Inr (Some (JString ''2.0.0''))"
    by code_simp
  have outer: "read_version ?fs (manifest ''/a/node_modules'' ''bar'') = Inr (Some (JString ''1.2.0''))"
    by code_simp
  have cand: "candidate (?paths ! 0) ''bar'' = ''/a/node_modules/foo/node_modules/bar''"
    by code_simp
  have "findDep ?fs (foo [(''bar'', Some ''^1.0.0'')] []) ''bar''
      = Some \<lparr>pkgPath = Some (candidate (?paths ! 0) ''bar''), version = Some (JString ''2.0.0'')\<rparr>"
    by (rule findDep_innermost_wins[OF chain _ inner]) simp_all
  with chain inner outer cand show ?thesis by simp
qed

text \<open>
  C5. A manifest that is not JSON is passed over like an absent one: when every container
  before the \<open>i\<close>-th holds a manifest that is either malformed or absent and the
  \<open>i\<close>-th holds a manifest that is an object, \<open>findDep\<close> returns the \<open>i\<close>-th candidate;
  and on every file system the result is the one obtained when each malformed manifest is
  absent.
\<close>

theorem malformed_manifest_skipped:
  assumes "search_chain plugin = Some paths"
    and "i < length paths"
    and "\<forall>j<i. fs (manifest (paths ! j) dep) = NotJSON
             \<or> fs (manifest (paths ! j) dep) = Rejects ENOENT"
    and "fs (manifest (paths ! i) dep) = JSON (JObject props)"
  shows "findDep fs plugin dep
           = Some \<lparr>pkgPath = Some (candidate (paths ! i) dep), version = map_of props ''version''\<rparr>
         \<and> findDep fs plugin dep
           = findDep (\<lambda>p. case fs p of NotJSON \<Rightarrow> Rejects ENOENT | out \<Rightarrow> out) plugin dep"
proof
  have valid: "read_version fs (path_join [path_join [paths ! i,
      path_join (split_sep CHR ''/'' dep)], ''package.json'']) = Inr (map_of props ''version'')"
    using assms(4) by (simp add: read_version_def manifest_def candidate_def)
  have before: "\<forall>j<i. \<exists>e. read_version fs (path_join [path_join [paths ! j,
      path_join (split_sep CHR ''/'' dep)], ''package.json'']) = Inl e"
    using assms(3) by (auto simp: read_version_def manifest_def candidate_def)
  from findDep_search_first[OF assms(2) valid before] assms(1)
  show "findDep fs plugin dep
      = Some \<lparr>pkgPath = Some (candidate (paths ! i) dep), version = map_of props ''version''\<rparr>"
    by (simp add: findDep_eq candidate_def)
next
  show "findDep fs plugin dep
      = findDep (\<lambda>p. case fs p of NotJSON \<Rightarrow> Rejects ENOENT | out \<Rightarrow> out) plugin dep"
    by (rule findDep_cong) (simp add: read_version_def split: read_outcome.splits json.splits)
qed

theorem malformed_manifest_skipped_witness:
  "search_chain (foo [(''bar'', Some ''^1.0.0'')] [])
     = Some [''/a/node_modules/foo/node_modules'', ''/a/node_modules'']
   \<and> files [(''/a/node_modules/foo/node_modules/bar/package.json'', NotJSON),
            (''/a/node_modules/bar/package.json'', package ''bar'' ''1.2.0'')]
        (manifest ''/a/node_modules/foo/node_modules'' ''bar'') = NotJSON
   \<and> findDep
        (files [(''/a/node_modules/foo/node_modules/bar/package.json'', NotJSON),
                (''/a/node_modules/bar/package.json'', package ''bar'' ''1.2.0'')])
        (foo [(''bar'', Some ''^1.0.0'')] []) ''bar''
       = Some \<lparr>pkgPath = Some ''/a/node_modules/bar'', version = Some (JString ''1.2.0'')\<rparr>"
proof -
  let ?fs = "files [(''/a/node_modules/foo/node_modules/bar/package.json'', NotJSON),
                (''/a/node_modules/bar/package.json'', package ''bar'' ''1.2.0'')]"
  let ?paths = "[''/a/node_modules/foo/node_modules'', ''/a/node_modules'']"
  have chain: "search_chain (foo [(''bar'', Some ''^1.0.0'')] []) = Some ?paths"
    by code_simp
  have inner: "?fs (manifest ''/a/node_modules/foo/node_modules'' ''bar'') = NotJSON"
    by code_simp
  then have before: "\<forall>j<1. ?fs (manifest (?paths ! j) ''bar'') = NotJSON
      \<or> ?fs (manifest (?paths ! j) ''bar'') = Rejects ENOENT"
    by simp
  have outer: "?fs (manifest (?paths ! 1) ''bar'')
      = JSON (JObject [(''name'', JString ''bar''), (''version'', JString ''1.2.0'')])"
    by code_simp
  have cand: "candidate (?paths ! 1) ''bar'' = ''/a/node_modules/bar''"
    by code_simp
  have "findDep ?fs (foo [(''bar'', Some ''^1.0.0'')] []) ''bar''
      = Some \<lparr>pkgPath = Some (candidate (?paths ! 1) ''bar''),
          version = map_of [(''name'', JString ''bar''), (''version'', JString ''1.2.0'')] ''version''\<rparr>"
    using malformed_manifest_skipped[OF chain _ before outer] by simp
  with chain inner cand show ?thesis by simp
qed

section \<open>Properties of inspect\<close>

subsection \<open>Reading and writing the children of a node\<close>

lemma node_get_set_same: "node_get (node_set t k n) k = Some n"
  by (simp add: node_get_def node_set_def map_of_obj_set_same)

lemma node_get_set_other: "k' \<noteq> k \<Longrightarrow> node_get (node_set t k n) k' = node_get t k'"
  by (auto simp: node_get_def node_set_def map_of_obj_set_other)

lemma nodes_tree_insert: "nodes (tree_insert k t) = obj_set (nodes t) k (Tree [] None)"
  by (simp add: tree_insert_def node_set_def obj_set_proto)

lemma node_get_insert_same: "node_get (tree_insert k t) k = Some (Tree [] None)"
  by (simp add: tree_insert_def node_get_set_same)

lemma node_get_insert_other: "k' \<noteq> k \<Longrightarrow> node_get (tree_insert k t) k' = node_get t k'"
  by (simp add: tree_insert_def node_get_set_other)

lemma nodes_fold_insert:
  "nodes (foldl (\<lambda>n l. tree_insert l n) n ls)
     = foldl (\<lambda>ps l. obj_set ps l (Tree [] None)) (nodes n) ls"
  by (induction ls arbitrary: n) (simp_all add: nodes_tree_insert)

lemma run_steps_append:
  "run_steps (xs @ ys) t = (case run_steps xs t of Inl e \<Rightarrow> Inl e | Inr t' \<Rightarrow> run_steps ys t')"
  by (induction xs arbitrary: t) (auto split: sum.splits)

lemma insert_at_child:
  "node_get t k = Some n \<Longrightarrow> insert_at [k] child t = Inr (node_set t k (tree_insert child n))"
  by simp

lemma insert_at_grandchild:
  "node_get t h = Some H \<Longrightarrow> node_get H k = Some n \<Longrightarrow>
     insert_at [h, k] child t = Inr (node_set t h (node_set H k (tree_insert child n)))"
  by simp

lemma run_inserts_header:
  "node_get t h = Some H \<Longrightarrow>
     \<exists>t'. run_steps (map (\<lambda>l. insert_at [h] l) ls) t = Inr t'
          \<and> node_get t' h = Some (foldl (\<lambda>n l. tree_insert l n) H ls)"
proof (induction ls arbitrary: t H)
  case Nil
  then show ?case by simp
next
  case (Cons l ls)
  have "node_get (node_set t h (tree_insert l H)) h = Some (tree_insert l H)"
    by (rule node_get_set_same)
  from Cons.IH[OF this] Cons.prems show ?case
    by (simp add: insert_at_child del: insert_at.simps)
qed

lemma run_inserts_commands:
  "node_get t h = Some H \<Longrightarrow> node_get H k = Some C \<Longrightarrow>
     \<exists>t' H'. run_steps (map (\<lambda>cmd. insert_at [h, k] cmd) cmds) t = Inr t'
          \<and> node_get t' h = Some H'
          \<and> node_get H' k = Some (foldl (\<lambda>n l. tree_insert l n) C cmds)"
proof (induction cmds arbitrary: t H C)
  case Nil
  then show ?case by simp
next
  case (Cons cmd cmds)
  let ?H = "node_set H k (tree_insert cmd C)"
  have top: "node_get (node_set t h ?H) h = Some ?H"
    by (rule node_get_set_same)
  have sub: "node_get ?H k = Some (tree_insert cmd C)"
    by (rule node_get_set_same)
  from Cons.IH[OF top sub] Cons.prems show ?case
    by (simp add: insert_at_grandchild del: insert_at.simps)
qed

subsection \<open>The header of the tree\<close>

lemma inspect_header_shape:
  "\<exists>T H C. inspect_header c plugin = Inr T
        \<and> node_get T (bold_cyan c (plugin_name plugin)) = Some H
        \<and> node_get H ''commands'' = Some C
        \<and> nodes C = obj_of (map (\<lambda>k. (k, Tree [] None)) (sortBy (commandIDs plugin) (\<lambda>c. c)))
        \<and> node_get H ''dependencies'' = Some (Tree [] None)"
proof -
  define h where "h = bold_cyan c (plugin_name plugin)"
  define cmds where "cmds = sortBy (commandIDs plugin) (\<lambda>c. c)"
  define ls where "ls = [''version '' @ plugin_version plugin]
     @ (case plugin_tag plugin of Some tag \<Rightarrow> if tag \<noteq> [] then [''tag '' @ tag] else [] | None \<Rightarrow> [])
     @ (case pjson_homepage plugin of
          Some homepage \<Rightarrow> if homepage \<noteq> [] then [''homepage '' @ homepage] else []
        | None \<Rightarrow> [])
     @ [''location '' @ plugin_root plugin]"
  have list_eq: "[insert_at [] h, insert_at [h] (''version '' @ plugin_version plugin)]
        @ (case plugin_tag plugin of
             Some tag \<Rightarrow> if tag \<noteq> [] then [insert_at [h] (''tag '' @ tag)] else []
           | None \<Rightarrow> [])
        @ (case pjson_homepage plugin of
             Some homepage \<Rightarrow>
               if homepage \<noteq> [] then [insert_at [h] (''homepage '' @ homepage)]
               else []
           | None \<Rightarrow> [])
        @ [insert_at [h] (''location '' @ plugin_root plugin),
           insert_at [h] ''commands'']
        @ map (\<lambda>cmd. insert_at [h, ''commands''] cmd) cmds
        @ [insert_at [h] ''dependencies'']
      = insert_at [] h # (map (\<lambda>l. insert_at [h] l) (ls @ [''commands''])
          @ (map (\<lambda>cmd. insert_at [h, ''commands''] cmd) cmds @ [insert_at [h] ''dependencies'']))"
    unfolding ls_def by (simp split: option.splits del: insert_at.simps)
  have steps: "inspect_header c plugin
      = run_steps (insert_at [] h # (map (\<lambda>l. insert_at [h] l) (ls @ [''commands''])
          @ (map (\<lambda>cmd. insert_at [h, ''commands''] cmd) cmds @ [insert_at [h] ''dependencies''])))
         (Tree [] None)"
    unfolding inspect_header_def Let_def h_def[symmetric] cmds_def[symmetric]
    by (simp only: list_eq)
  define T0 where "T0 = tree_insert h (Tree [] None)"
  have first: "insert_at [] h (Tree [] None) = Inr T0"
    by (simp add: T0_def)
  have get0: "node_get T0 h = Some (Tree [] None)"
    unfolding T0_def by (rule node_get_insert_same)
  define H1 where "H1 = foldl (\<lambda>n l. tree_insert l n) (Tree [] None) (ls @ [''commands''])"
  from run_inserts_header[OF get0, of "ls @ [''commands'']"]
  obtain T1 where second: "run_steps (map (\<lambda>l. insert_at [h] l) (ls @ [''commands''])) T0 = Inr T1"
    and get1: "node_get T1 h = Some H1"
    unfolding H1_def by blast
  have cmd1: "node_get H1 ''commands'' = Some (Tree [] None)"
    unfolding H1_def by (simp add: node_get_insert_same)
  define C where "C = foldl (\<lambda>n l. tree_insert l n) (Tree [] None) cmds"
  from run_inserts_commands[OF get1 cmd1, of cmds]
  obtain T2 H2 where third: "run_steps (map (\<lambda>cmd. insert_at [h, ''commands''] cmd) cmds) T1 = Inr T2"
    and get2: "node_get T2 h = Some H2"
    and cmd2: "node_get H2 ''commands'' = Some C"
    unfolding C_def by blast
  define T3 where "T3 = node_set T2 h (tree_insert ''dependencies'' H2)"
  have fourth: "insert_at [h] ''dependencies'' T2 = Inr T3"
    unfolding T3_def by (rule insert_at_child[OF get2])
  have "inspect_header c plugin
      = run_steps (map (\<lambda>l. insert_at [h] l) (ls @ [''commands''])
          @ (map (\<lambda>cmd. insert_at [h, ''commands''] cmd) cmds @ [insert_at [h] ''dependencies'']))
         T0"
    unfolding steps by (simp only: run_steps.simps first sum.simps)
  also have "\<dots> = run_steps (map (\<lambda>cmd. insert_at [h, ''commands''] cmd) cmds
          @ [insert_at [h] ''dependencies'']) T1"
    by (simp only: run_steps_append second sum.simps)
  also have "\<dots> = run_steps [insert_at [h] ''dependencies''] T2"
    by (simp only: run_steps_append third sum.simps)
  also have "\<dots> = Inr T3"
    by (simp only: run_steps.simps fourth sum.simps)
  finally have res: "inspect_header c plugin = Inr T3" .
  have get3: "node_get T3 h = Some (tree_insert ''dependencies'' H2)"
    unfolding T3_def by (rule node_get_set_same)
  have cmd3: "node_get (tree_insert ''dependencies'' H2) ''commands'' = Some C"
    using cmd2 by (simp add: node_get_insert_other)
  have dep3: "node_get (tree_insert ''dependencies'' H2) ''dependencies'' = Some (Tree [] None)"
    by (rule node_get_insert_same)
  have "nodes C = obj_of (map (\<lambda>k. (k, Tree [] None)) cmds)"
    unfolding C_def by (simp add: nodes_fold_insert obj_of_def foldl_map)
  with res get3 cmd3 dep3 show ?thesis
    unfolding h_def cmds_def by blast
qed

subsection \<open>The loop over the dependencies\<close>

lemma to_string_error:
  "to_string v = Inl e \<Longrightarrow> e = TypeError"
  "join_elements vs = Inl e \<Longrightarrow> e = TypeError"
  by (induction v and vs arbitrary: e and e rule: to_string_join_elements.induct)
    (auto split: if_splits sum.splits)

lemma findDep_total: "\<exists>r. findDep fs plugin dep = Some r"
  using search_chain_total[of plugin] by (auto simp: findDep_eq)

lemma inspect_dep_unresolved:
  "resolved fs plugin d = None \<Longrightarrow> inspect_dep c fs plugin verbose d st = Some (Inr st)"
  using findDep_total[of fs plugin d]
  by (auto simp: resolved_def inspect_dep_def split: option.splits if_splits)

lemma inspect_dep_resolved:
  "resolved fs plugin d = Some (v, p) \<Longrightarrow>
     inspect_dep c fs plugin verbose d st
       = (case msg c verbose d (declared_from plugin d) v p of
            Inl e \<Rightarrow> Some (Inl e)
          | Inr m \<Rightarrow>
              (case insert_at [bold_cyan c (plugin_name plugin), ''dependencies''] m (fst st) of
                 Inl e \<Rightarrow> Some (Inl e)
               | Inr tree' \<Rightarrow>
                   Some (Inr (tree',
                     obj_set (snd st) d \<lparr>dep_from = declared_from plugin d, dep_version = v\<rparr>))))"
  by (auto simp: resolved_def inspect_dep_def split: option.splits if_splits
        simp del: insert_at.simps)

lemma msg_throws:
  "isl (to_string v) \<Longrightarrow> msg c verbose d frm v p = Inl TypeError"
  using to_string_error(1)[of v]
  by (cases "to_string v") (auto simp: msg_def versionMsg_def)

lemma msg_label:
  "\<not> isl (to_string v) \<Longrightarrow>
     msg c verbose d (declared_from plugin d) v p = Inr (label_of c verbose plugin (d, v, p))"
  by (cases "to_string v") (auto simp: label_of_def msg_def versionMsg_def split: sum.splits)

lemma resolved_among_Nil: "resolved_among fs plugin [] = []"
  by (simp add: resolved_among_def)

lemma resolved_among_Cons:
  "resolved_among fs plugin (d # ds)
     = (case resolved fs plugin d of
          None \<Rightarrow> resolved_among fs plugin ds
        | Some vp \<Rightarrow> (d, vp) # resolved_among fs plugin ds)"
  by (simp add: resolved_among_def split: option.splits)

lemma inspect_deps_shape:
  assumes "node_get t (bold_cyan c (plugin_name plugin)) = Some H"
    and "node_get H ''dependencies'' = Some D"
  shows "if list_all (\<lambda>(d, v, p). \<not> isl (to_string v)) (resolved_among fs plugin names)
     then \<exists>t' H' D'. inspect_deps c fs plugin verbose names (t, dj)
            = Some (Inr (t', foldl (\<lambda>ps (k, e). obj_set ps k e) dj
                  (map (\<lambda>(d, v, p). (d, \<lparr>dep_from = declared_from plugin d, dep_version = v\<rparr>))
                     (resolved_among fs plugin names))))
        \<and> node_get t' (bold_cyan c (plugin_name plugin)) = Some H'
        \<and> node_get H' ''dependencies'' = Some D'
        \<and> nodes D' = foldl (\<lambda>ps (k, e). obj_set ps k e) (nodes D)
                  (map (\<lambda>x. (label_of c verbose plugin x, Tree [] None))
                     (resolved_among fs plugin names))
        \<and> node_get H' ''commands'' = node_get H ''commands''
     else inspect_deps c fs plugin verbose names (t, dj) = Some (Inl TypeError)"
  using assms
proof (induction names arbitrary: t H D dj)
  case Nil
  then show ?case by (simp add: resolved_among_Nil)
next
  case (Cons d names)
  show ?case
  proof (cases "resolved fs plugin d")
    case None
    have same: "inspect_deps c fs plugin verbose (d # names) (t, dj)
        = inspect_deps c fs plugin verbose names (t, dj)"
      using None by (simp add: inspect_dep_unresolved)
    from None have "resolved_among fs plugin (d # names) = resolved_among fs plugin names"
      by (simp add: resolved_among_Cons)
    with Cons.IH[OF Cons.prems, of dj] same show ?thesis
      by (simp only:)
  next
    case (Some vp)
    obtain v p where vp: "vp = (v, p)" by (cases vp)
    show ?thesis
    proof (cases "isl (to_string v)")
      case True
      with Some vp have "inspect_deps c fs plugin verbose (d # names) (t, dj) = Some (Inl TypeError)"
        by (simp add: inspect_dep_resolved msg_throws del: insert_at.simps)
      moreover from True Some vp
      have "\<not> list_all (\<lambda>(d, v, p). \<not> isl (to_string v)) (resolved_among fs plugin (d # names))"
        by (simp add: resolved_among_Cons)
      ultimately show ?thesis by (simp only: if_False)
    next
      case False
      let ?h = "bold_cyan c (plugin_name plugin)"
      let ?m = "label_of c verbose plugin (d, v, p)"
      let ?D = "tree_insert ?m D"
      let ?H = "node_set H ''dependencies'' ?D"
      let ?t = "node_set t ?h ?H"
      let ?dj = "obj_set dj d \<lparr>dep_from = declared_from plugin d, dep_version = v\<rparr>"
      have top: "node_get ?t ?h = Some ?H"
        by (rule node_get_set_same)
      have dep: "node_get ?H ''dependencies'' = Some ?D"
        by (rule node_get_set_same)
      have cmd: "node_get ?H ''commands'' = node_get H ''commands''"
        by (simp add: node_get_set_other)
      have step: "inspect_dep c fs plugin verbose d (t, dj) = Some (Inr (?t, ?dj))"
        using Some vp False
        by (simp add: inspect_dep_resolved msg_label insert_at_grandchild[OF Cons.prems]
              del: insert_at.simps)
      have run: "inspect_deps c fs plugin verbose (d # names) (t, dj)
          = inspect_deps c fs plugin verbose names (?t, ?dj)"
        by (simp add: step)
      have lst: "resolved_among fs plugin (d # names) = (d, v, p) # resolved_among fs plugin names"
        using Some vp by (simp add: resolved_among_Cons)
      show ?thesis
      proof (cases "list_all (\<lambda>(d, v, p). \<not> isl (to_string v)) (resolved_among fs plugin names)")
        case all: True
        with Cons.IH[OF top dep, of ?dj]
        obtain t' H' D' where "inspect_deps c fs plugin verbose names (?t, ?dj)
            = Some (Inr (t', foldl (\<lambda>ps (k, e). obj_set ps k e) ?dj
                  (map (\<lambda>(d, v, p). (d, \<lparr>dep_from = declared_from plugin d, dep_version = v\<rparr>))
                     (resolved_among fs plugin names))))"
          and "node_get t' ?h = Some H'"
          and "node_get H' ''dependencies'' = Some D'"
          and "nodes D' = foldl (\<lambda>ps (k, e). obj_set ps k e) (nodes ?D)
                  (map (\<lambda>x. (label_of c verbose plugin x, Tree [] None))
                     (resolved_among fs plugin names))"
          and "node_get H' ''commands'' = node_get ?H ''commands''"
          by auto
        with all False show ?thesis
          unfolding run lst by (auto simp: cmd nodes_tree_insert)
      next
        case none: False
        with Cons.IH[OF top dep, of ?dj]
        have "inspect_deps c fs plugin verbose names (?t, ?dj) = Some (Inl TypeError)"
          by simp
        with none show ?thesis
          unfolding run lst by simp
      qed
    qed
  qed
qed

lemma inspect_plugin_shape:
  "if printable fs plugin
   then \<exists>T H C D. inspect_plugin c fs plugin verbose
          = Some (Inr (T,
              obj_of (map (\<lambda>(d, v, p). (d, \<lparr>dep_from = declared_from plugin d, dep_version = v\<rparr>))
                (resolved_deps fs plugin))))
        \<and> node_get T (bold_cyan c (plugin_name plugin)) = Some H
        \<and> node_get H ''commands'' = Some C
        \<and> nodes C = obj_of (map (\<lambda>k. (k, Tree [] None)) (sortBy (commandIDs plugin) (\<lambda>c. c)))
        \<and> node_get H ''dependencies'' = Some D
        \<and> nodes D = obj_of (map (\<lambda>x. (label_of c verbose plugin x, Tree [] None))
                (resolved_deps fs plugin))
   else inspect_plugin c fs plugin verbose = Some (Inl TypeError)"
proof -
  from inspect_header_shape[of c plugin]
  obtain T H C where hdr: "inspect_header c plugin = Inr T"
    and top: "node_get T (bold_cyan c (plugin_name plugin)) = Some H"
    and cmds: "node_get H ''commands'' = Some C"
    and C: "nodes C = obj_of (map (\<lambda>k. (k, Tree [] None)) (sortBy (commandIDs plugin) (\<lambda>c. c)))"
    and deps: "node_get H ''dependencies'' = Some (Tree [] None)"
    by blast
  from inspect_deps_shape[OF top deps, of fs
      "sortBy (map fst (pjson_dependencies plugin)) (\<lambda>d. d)" verbose "[]"] hdr cmds C
  show ?thesis
    unfolding printable_def resolved_deps_def obj_of_def inspect_plugin_def
    by (auto split: if_splits)
qed

lemma inspect_plugin_returns: "\<exists>r. inspect_plugin c fs plugin verbose = Some r"
  using inspect_plugin_shape[of fs plugin c verbose] by (auto split: if_splits)

text \<open>
  The error is thrown on some inputs: a manifest whose version is an object with a property
  \<^verbatim>\<open>toString\<close> of its own is truthy and cannot be converted to a string, so the report
  of a plugin that depends on such a package is not printable, even when another
  dependency of the plugin is absent.
\<close>

lemma unconvertible_version_throws:
  "\<not> printable
       (files [(''/a/node_modules/bar/package.json'',
                manifest_of ''bar'' (JObject [(''toString'', JNumber ''1'')]))])
       (foo [(''bar'', Some ''^1.0.0''), (''baz'', Some ''^2.0.0'')] [])
   \<and> inspect_plugin plain
       (files [(''/a/node_modules/bar/package.json'',
                manifest_of ''bar'' (JObject [(''toString'', JNumber ''1'')]))])
       (foo [(''bar'', Some ''^1.0.0''), (''baz'', Some ''^2.0.0'')] []) False
     = Some (Inl TypeError)"
  by code_simp

section \<open>Properties of the record of dependencies\<close>

lemma set_resolved_among:
  "set (resolved_among fs plugin ds) = {(d, vp). d \<in> set ds \<and> resolved fs plugin d = Some vp}"
  by (induction ds) (auto simp: resolved_among_Nil resolved_among_Cons split: option.splits)

lemma set_sortBy: "set (sortBy xs f) = set xs"
  by (simp add: sortBy_def)

lemma set_resolved_deps:
  "set (resolved_deps fs plugin)
     = {(d, vp). d \<in> fst ` set (pjson_dependencies plugin) \<and> resolved fs plugin d = Some vp}"
  by (simp add: resolved_deps_def set_resolved_among set_sortBy)

lemma keys_fold_obj_set:
  "fst ` set (foldl (\<lambda>ps (k, e). obj_set ps k e) ps kvs)
     = fst ` set ps \<union> (fst ` set kvs - {''__proto__''})"
proof (induction kvs arbitrary: ps)
  case Nil
  then show ?case by simp
next
  case (Cons x kvs)
  obtain k e where x: "x = (k, e)" by (cases x)
  show ?case
  proof (cases "k = ''__proto__''")
    case True
    with Cons.IH[of ps] show ?thesis by (simp add: x obj_set_proto)
  next
    case False
    with Cons.IH[of "obj_set ps k e"] show ?thesis by (auto simp: x keys_obj_set)
  qed
qed

lemma keys_obj_of: "fst ` set (obj_of kvs) = fst ` set kvs - {''__proto__''}"
  by (simp add: obj_of_def keys_fold_obj_set)

lemma map_of_fold_obj_set:
  "\<forall>(k, e)\<in>set kvs. e = g k \<Longrightarrow>
     map_of (foldl (\<lambda>ps (k, e). obj_set ps k e) ps kvs) k
       = (if k \<in> fst ` set kvs \<and> k \<noteq> ''__proto__'' then Some (g k) else map_of ps k)"
proof (induction kvs arbitrary: ps)
  case Nil
  then show ?case by simp
next
  case (Cons x kvs)
  obtain k' e' where x: "x = (k', e')" by (cases x)
  from Cons.prems x have e': "e' = g k'" and rest: "\<forall>(k, e)\<in>set kvs. e = g k"
    by auto
  show ?case
  proof (cases "k' = ''__proto__''")
    case True
    with Cons.IH[OF rest, of ps] x show ?thesis
      by (auto simp: obj_set_proto)
  next
    case False
    with Cons.IH[OF rest, of "obj_set ps k' e'"] x e' show ?thesis
      by (auto simp: map_of_obj_set_same map_of_obj_set_other)
  qed
qed

lemma map_of_obj_of:
  "\<forall>(k, e)\<in>set kvs. e = g k \<Longrightarrow>
     map_of (obj_of kvs) k
       = (if k \<in> fst ` set kvs \<and> k \<noteq> ''__proto__'' then Some (g k) else None)"
  by (simp add: obj_of_def map_of_fold_obj_set)

lemma deps_lookup:
  "map_of (obj_of (map (\<lambda>(d, v, p). (d, \<lparr>dep_from = declared_from plugin d, dep_version = v\<rparr>))
       (resolved_deps fs plugin))) d
     = (if d \<in> fst ` set (pjson_dependencies plugin) \<and> d \<noteq> ''__proto__''
        then map_option (\<lambda>(v, p). \<lparr>dep_from = declared_from plugin d, dep_version = v\<rparr>)
               (resolved fs plugin d)
        else None)"
proof -
  let ?kvs = "map (\<lambda>(d, v, p). (d, \<lparr>dep_from = declared_from plugin d, dep_version = v\<rparr>))
       (resolved_deps fs plugin)"
  let ?g = "\<lambda>d. \<lparr>dep_from = declared_from plugin d,
       dep_version = fst (the (resolved fs plugin d))\<rparr>"
  have g: "\<forall>(k, e)\<in>set ?kvs. e = ?g k"
    by (auto simp: set_resolved_deps)
  have keys: "fst ` set ?kvs
      = {d. d \<in> fst ` set (pjson_dependencies plugin) \<and> resolved fs plugin d \<noteq> None}"
    by (force simp: set_resolved_deps image_iff)
  show ?thesis
    unfolding map_of_obj_of[of ?kvs ?g, OF g] keys
    by (cases "resolved fs plugin d") auto
qed

section \<open>Claims about the record of dependencies\<close>

text \<open>
  C1, as amended. For every plugin \<open>inspect\<close> either returns or throws the
  \<^verbatim>\<open>TypeError\<close> of a version that cannot be converted to a string. When it returns, the
  record \<^verbatim>\<open>deps\<close> has exactly one entry for each declared dependency that is resolved
  and whose name is not \<^verbatim>\<open>__proto__\<close>, under the name of the dependency; the entry holds
  the two fields \<^verbatim>\<open>from\<close>, the declared range, and \<^verbatim>\<open>version\<close>, the resolved version
  as the manifest holds it. The resolved install path is no field of an entry.
\<close>

theorem deps_entries:
  "(printable fs plugin
    \<and> (\<exists>tree depsJson. inspect_plugin c fs plugin verbose = Some (Inr (tree, depsJson))
         \<and> distinct (map fst depsJson)
         \<and> (\<forall>d. map_of depsJson d
                = (if d \<in> fst ` set (pjson_dependencies plugin) \<and> d \<noteq> ''__proto__''
                   then map_option
                          (\<lambda>(v, p). \<lparr>dep_from = declared_from plugin d, dep_version = v\<rparr>)
                          (resolved fs plugin d)
                   else None))))
   \<or> (\<not> printable fs plugin \<and> inspect_plugin c fs plugin verbose = Some (Inl TypeError))"
proof (cases "printable fs plugin")
  case True
  let ?dj = "obj_of (map (\<lambda>(d, v, p). (d, \<lparr>dep_from = declared_from plugin d, dep_version = v\<rparr>))
       (resolved_deps fs plugin))"
  from True inspect_plugin_shape[of fs plugin c verbose]
  obtain T where res: "inspect_plugin c fs plugin verbose = Some (Inr (T, ?dj))"
    by auto
  have keys: "distinct (map fst ?dj)"
    by (rule distinct_obj_of)
  from True res keys deps_lookup[of plugin fs] show ?thesis
    by (intro disjI1 conjI exI[of _ T] exI[of _ ?dj] allI) simp_all
next
  case False
  with inspect_plugin_shape[of fs plugin c verbose] show ?thesis
    by simp
qed

theorem deps_entries_witness:
  "printable (files [(''/a/node_modules/bar/package.json'', manifest_of ''bar'' (JNumber ''1''))])
     (foo [(''bar'', Some ''^1.0.0'')] [])
   \<and> (\<exists>tree depsJson.
        inspect_plugin plain
          (files [(''/a/node_modules/bar/package.json'', manifest_of ''bar'' (JNumber ''1''))])
          (foo [(''bar'', Some ''^1.0.0'')] []) False = Some (Inr (tree, depsJson))
        \<and> map_of depsJson ''bar''
            = Some \<lparr>dep_from = Some ''^1.0.0'', dep_version = JNumber ''1''\<rparr>
        \<and> map_of depsJson ''__proto__'' = None)"
proof -
  let ?fs = "files [(''/a/node_modules/bar/package.json'', manifest_of ''bar'' (JNumber ''1''))]"
  let ?P = "foo [(''bar'', Some ''^1.0.0'')] []"
  have p: "printable ?fs ?P"
    by code_simp
  have r: "resolved ?fs ?P ''bar'' = Some (JNumber ''1'', Some ''/a/node_modules/bar'')"
    by code_simp
  have d: "declared_from ?P ''bar'' = Some ''^1.0.0''"
    by code_simp
  have names: "fst ` set (pjson_dependencies ?P) = {''bar''}"
    by (simp add: foo_def)
  from deps_entries[of ?fs ?P plain False] p
  obtain tree depsJson where res: "inspect_plugin plain ?fs ?P False = Some (Inr (tree, depsJson))"
    and look: "\<And>d. map_of depsJson d
        = (if d \<in> fst ` set (pjson_dependencies ?P) \<and> d \<noteq> ''__proto__''
           then map_option (\<lambda>(v, p). \<lparr>dep_from = declared_from ?P d, dep_version = v\<rparr>)
                  (resolved ?fs ?P d)
           else None)"
    by auto
  have "map_of depsJson ''bar'' = Some \<lparr>dep_from = Some ''^1.0.0'', dep_version = JNumber ''1''\<rparr>"
    unfolding look[of "''bar''"] names by (simp add: r d)
  moreover have "map_of depsJson ''__proto__'' = None"
    unfolding look[of "''__proto__''"] by simp
  ultimately show ?thesis using p res by blast
qed

text \<open>
  C1 as stated fails: the install path is not part of the record. On two file systems that
  hold the same version of \<^verbatim>\<open>bar\<close>, one in the plugin's own directory of modules and one
  in the directory above, \<open>findDep\<close> returns two different paths and \<open>inspect\<close>, even
  when verbose, returns the same record, whose entry is \<^verbatim>\<open>{from, version}\<close>.
\<close>

theorem install_path_counterexample:
  "findDep (files [(''/a/node_modules/foo/node_modules/bar/package.json'', package ''bar'' ''1.2.0'')])
       (foo [(''bar'', Some ''^1.0.0'')] []) ''bar''
     = Some \<lparr>pkgPath = Some ''/a/node_modules/foo/node_modules/bar'',
             version = Some (JString ''1.2.0'')\<rparr>
   \<and> findDep (files [(''/a/node_modules/bar/package.json'', package ''bar'' ''1.2.0'')])
       (foo [(''bar'', Some ''^1.0.0'')] []) ''bar''
     = Some \<lparr>pkgPath = Some ''/a/node_modules/bar'', version = Some (JString ''1.2.0'')\<rparr>
   \<and> map_option (map_sum id snd)
       (inspect_plugin plain
          (files [(''/a/node_modules/foo/node_modules/bar/package.json'', package ''bar'' ''1.2.0'')])
          (foo [(''bar'', Some ''^1.0.0'')] []) True)
     = Some (Inr [(''bar'', \<lparr>dep_from = Some ''^1.0.0'', dep_version = JString ''1.2.0''\<rparr>)])
   \<and> map_option (map_sum id snd)
       (inspect_plugin plain
          (files [(''/a/node_modules/bar/package.json'', package ''bar'' ''1.2.0'')])
          (foo [(''bar'', Some ''^1.0.0'')] []) True)
     = Some (Inr [(''bar'', \<lparr>dep_from = Some ''^1.0.0'', dep_version = JString ''1.2.0''\<rparr>)])"
  by code_simp

text \<open>
  C10. The flag \<^verbatim>\<open>verbose\<close> has no influence on what \<open>inspect\<close> returns: for every
  configuration, file system and plugin name, \<open>inspect\<close> returns with and without the
  flag, and the value returned or the error thrown (so the record \<^verbatim>\<open>deps\<close>) is the same;
  only what is printed can differ. The same holds of the record built for a given plugin.
\<close>

theorem verbose_leaves_deps:
  "(\<exists>r. inspect c cfg fs jsonEnabled pluginName True = Some r)
   \<and> map_option snd (inspect c cfg fs jsonEnabled pluginName True)
       = map_option snd (inspect c cfg fs jsonEnabled pluginName False)
   \<and> map_option (map_sum id snd) (inspect_plugin c fs plugin True)
       = map_option (map_sum id snd) (inspect_plugin c fs plugin False)"
proof -
  have plug: "(\<exists>t t' dj. inspect_plugin c fs p True = Some (Inr (t, dj))
        \<and> inspect_plugin c fs p False = Some (Inr (t', dj)))
      \<or> (inspect_plugin c fs p True = Some (Inl TypeError)
        \<and> inspect_plugin c fs p False = Some (Inl TypeError))" for p
    using inspect_plugin_shape[of fs p c True] inspect_plugin_shape[of fs p c False]
    by (cases "printable fs p") auto
  have insp: "(\<exists>r. inspect c cfg fs jsonEnabled pluginName True = Some r)
      \<and> map_option snd (inspect c cfg fs jsonEnabled pluginName True)
          = map_option snd (inspect c cfg fs jsonEnabled pluginName False)"
  proof (cases "findPlugin cfg pluginName")
    case (Pair out res)
    show ?thesis
    proof (cases res)
      case (Inl e)
      with Pair show ?thesis by (simp add: inspect_def)
    next
      case (Inr p)
      from plug[of p] Pair Inr show ?thesis
        by (auto simp: inspect_def)
    qed
  qed
  have "map_option (map_sum id snd) (inspect_plugin c fs plugin True)
       = map_option (map_sum id snd) (inspect_plugin c fs plugin False)"
    using plug[of plugin] by auto
  with insp show ?thesis by blast
qed

section \<open>Claims about the tree of the report\<close>

lemma labels_shape:
  "node_get T h = Some H \<Longrightarrow> node_get H k = Some D \<Longrightarrow>
     labels [h, k] T = Some (map fst (nodes D))"
  by (simp add: labels_def)

lemma findDep_search_path:
  "version (findDep_search fs dp paths) = Some v \<Longrightarrow>
     \<exists>q. pkgPath (findDep_search fs dp paths) = Some q"
  by (induction paths) (auto simp: Let_def split: sum.splits)

lemma resolved_path: "resolved fs plugin d = Some (v, p) \<Longrightarrow> \<exists>q. p = Some q"
  using findDep_search_path[of fs "path_join (split_sep CHR ''/'' d)"]
  by (auto simp: resolved_def findDep_eq split: option.splits if_splits)

lemma label_of_unfold:
  "to_string v = Inr s \<Longrightarrow>
     label_of c verbose plugin (d, v, Some q)
       = d @ '' '' @ dim c (case declared_from plugin d of
                             Some f \<Rightarrow> if f \<noteq> [] then f @ '' => '' @ s else s
                           | None \<Rightarrow> s)
           @ (if verbose then '' '' @ q else [])"
  by (simp add: label_of_def msg_def versionMsg_def)

lemma label_space:
  "\<not> isl (to_string v) \<Longrightarrow> CHR '' '' \<in> set (label_of c verbose plugin (d, v, p))"
  by (cases "to_string v") (auto simp: label_of_def msg_def versionMsg_def)

lemma dependency_label_set:
  assumes "printable fs plugin"
  shows "fst ` set (obj_of (map (\<lambda>x. (label_of c verbose plugin x, Tree [] None))
             (resolved_deps fs plugin)))
           = {d @ '' '' @ dim c (case declared_from plugin d of
                                   Some f \<Rightarrow> if f \<noteq> [] then f @ '' => '' @ s else s
                                 | None \<Rightarrow> s)
                 @ (if verbose then '' '' @ q else []) | d v s q.
               (d, v, Some q) \<in> set (resolved_deps fs plugin) \<and> to_string v = Inr s}"
    (is "?keys = ?labels")
proof -
  from assms have conv: "\<not> isl (to_string v)" if "(d, v, p) \<in> set (resolved_deps fs plugin)"
    for d v p
    using that by (auto simp: printable_def list_all_iff)
  have path: "\<exists>q. p = Some q" if "(d, v, p) \<in> set (resolved_deps fs plugin)" for d v p
    using that resolved_path[of fs plugin d v p] by (simp add: set_resolved_deps)
  have "?keys = label_of c verbose plugin ` set (resolved_deps fs plugin) - {''__proto__''}"
    by (simp add: keys_obj_of image_image)
  also have "\<dots> = label_of c verbose plugin ` set (resolved_deps fs plugin)"
  proof -
    have ne: "label_of c verbose plugin x \<noteq> ''__proto__''"
      if "x \<in> set (resolved_deps fs plugin)" for x
    proof -
      obtain d v p where x: "x = (d, v, p)" by (cases x)
      from conv[of d v p] that x show ?thesis
        using label_space[of v c verbose plugin d p] proto_no_space by blast
    qed
    have "''__proto__'' \<notin> label_of c verbose plugin ` set (resolved_deps fs plugin)"
    proof
      assume "''__proto__'' \<in> label_of c verbose plugin ` set (resolved_deps fs plugin)"
      then obtain x where "x \<in> set (resolved_deps fs plugin)"
        and "''__proto__'' = label_of c verbose plugin x"
        by (rule imageE)
      with ne[of x] show False by simp
    qed
    then show ?thesis by simp
  qed
  also have "\<dots> = ?labels"
  proof (intro set_eqI iffI)
    fix l
    assume "l \<in> label_of c verbose plugin ` set (resolved_deps fs plugin)"
    then obtain d v p where mem: "(d, v, p) \<in> set (resolved_deps fs plugin)"
      and l: "l = label_of c verbose plugin (d, v, p)"
      by auto
    from path[OF mem] obtain q where q: "p = Some q" by blast
    from conv[OF mem] obtain s where s: "to_string v = Inr s"
      by (cases "to_string v") auto
    from l q label_of_unfold[OF s, of c verbose plugin d q] mem s show "l \<in> ?labels"
      by blast
  next
    fix l
    assume "l \<in> ?labels"
    then obtain d v s q where mem: "(d, v, Some q) \<in> set (resolved_deps fs plugin)"
      and s: "to_string v = Inr s"
      and l: "l = d @ '' '' @ dim c (case declared_from plugin d of
                                   Some f \<Rightarrow> if f \<noteq> [] then f @ '' => '' @ s else s
                                 | None \<Rightarrow> s)
                 @ (if verbose then '' '' @ q else [])"
      by blast
    from l label_of_unfold[OF s, of c verbose plugin d q]
    have "l = label_of c verbose plugin (d, v, Some q)" by simp
    with mem show "l \<in> label_of c verbose plugin ` set (resolved_deps fs plugin)"
      by blast
  qed
  finally show ?thesis .
qed

text \<open>
  C7, as amended. For every plugin \<open>inspect\<close> either returns or throws the
  \<^verbatim>\<open>TypeError\<close> of a version that cannot be converted to a string. When it returns, the
  labels of the dependencies section are those of the resolved dependencies, each label
  once, and the label of a dependency is its name, a space and the dimmed version message;
  the message is
  \<^verbatim>\<open>declaredRange => resolvedVersion\<close> exactly when the declared range is present and
  not empty, whether or not it differs from the resolved version, and the resolved version
  alone otherwise, the version being converted to a string. When \<^verbatim>\<open>verbose\<close> is set, a
  space and the resolved install path follow.
\<close>

theorem dependency_labels:
  "(printable fs plugin
    \<and> (\<exists>tree depsJson ls. inspect_plugin c fs plugin verbose = Some (Inr (tree, depsJson))
         \<and> labels [bold_cyan c (plugin_name plugin), ''dependencies''] tree = Some ls
         \<and> distinct ls
         \<and> set ls = {d @ '' '' @ dim c (case declared_from plugin d of
                                         Some f \<Rightarrow> if f \<noteq> [] then f @ '' => '' @ s else s
                                       | None \<Rightarrow> s)
                       @ (if verbose then '' '' @ q else []) | d v s q.
                     (d, v, Some q) \<in> set (resolved_deps fs plugin) \<and> to_string v = Inr s}))
   \<or> (\<not> printable fs plugin \<and> inspect_plugin c fs plugin verbose = Some (Inl TypeError))"
proof (cases "printable fs plugin")
  case True
  with inspect_plugin_shape[of fs plugin c verbose]
  obtain T H D depsJson where res: "inspect_plugin c fs plugin verbose = Some (Inr (T, depsJson))"
    and top: "node_get T (bold_cyan c (plugin_name plugin)) = Some H"
    and deps: "node_get H ''dependencies'' = Some D"
    and D: "nodes D = obj_of (map (\<lambda>x. (label_of c verbose plugin x, Tree [] None))
                (resolved_deps fs plugin))"
    by auto
  have "set (map fst (nodes D)) = fst ` set (nodes D)"
    by simp
  with dependency_label_set[OF True, of c verbose] D
  have "set (map fst (nodes D))
      = {d @ '' '' @ dim c (case declared_from plugin d of
                             Some f \<Rightarrow> if f \<noteq> [] then f @ '' => '' @ s else s
                           | None \<Rightarrow> s)
           @ (if verbose then '' '' @ q else []) | d v s q.
         (d, v, Some q) \<in> set (resolved_deps fs plugin) \<and> to_string v = Inr s}"
    by simp
  moreover have "distinct (map fst (nodes D))"
    unfolding D by (rule distinct_obj_of)
  ultimately show ?thesis
    using True res labels_shape[OF top deps] by blast
next
  case False
  with inspect_plugin_shape[of fs plugin c verbose] show ?thesis
    by simp
qed

theorem dependency_labels_witness:
  "printable (files [(''/a/node_modules/bar/package.json'', manifest_of ''bar'' (JNumber ''1''))])
     (foo [(''bar'', Some ''^1.0.0'')] [])
   \<and> (\<exists>tree depsJson ls.
        inspect_plugin plain
          (files [(''/a/node_modules/bar/package.json'', manifest_of ''bar'' (JNumber ''1''))])
          (foo [(''bar'', Some ''^1.0.0'')] []) True = Some (Inr (tree, depsJson))
        \<and> labels [''foo'', ''dependencies''] tree = Some ls
        \<and> set ls = {''bar ^1.0.0 => 1 /a/node_modules/bar''})"
proof -
  let ?fs = "files [(''/a/node_modules/bar/package.json'', manifest_of ''bar'' (JNumber ''1''))]"
  let ?P = "foo [(''bar'', Some ''^1.0.0'')] []"
  have p: "printable ?fs ?P"
    by code_simp
  have r: "resolved_deps ?fs ?P = [(''bar'', JNumber ''1'', Some ''/a/node_modules/bar'')]"
    by code_simp
  have d: "declared_from ?P ''bar'' = Some ''^1.0.0''"
    by code_simp
  have h: "bold_cyan plain (plugin_name ?P) = ''foo''"
    by (simp add: plain_def foo_def)
  have "{d @ '' '' @ dim plain (case declared_from ?P d of
                                  Some f \<Rightarrow> if f \<noteq> [] then f @ '' => '' @ s else s
                                | None \<Rightarrow> s)
           @ (if True then '' '' @ q else []) | d v s q.
         (d, v, Some q) \<in> set (resolved_deps ?fs ?P) \<and> to_string v = Inr s}
      = {''bar ^1.0.0 => 1 /a/node_modules/bar''}"
    unfolding r by (auto simp: d plain_def)
  with dependency_labels[of ?fs ?P plain True] p h show ?thesis
    by auto
qed

text \<open>
  C7 as stated fails in both directions: a declared range equal to the resolved version is
  shown with the arrow, and a declared range that is absent gives the version alone.
\<close>

theorem label_counterexample:
  "map_option (map_sum id (labels [''foo'', ''dependencies''] \<circ> fst))
     (inspect_plugin plain
        (files [(''/a/node_modules/foo/node_modules/bar/package.json'', package ''bar'' ''1.2.0''),
                (''/a/node_modules/foo/node_modules/baz/package.json'', package ''baz'' ''3.0.0'')])
        (foo [(''bar'', Some ''1.2.0''), (''baz'', None)] []) False)
     = Some (Inr (Some [''bar 1.2.0 => 1.2.0'', ''baz 3.0.0'']))"
  by code_simp

text \<open>
  C6. The code sorts the dependency names and the command identifiers before it inserts
  them, and the labels of the dependencies section keep that order. The record
  \<^verbatim>\<open>deps\<close> and the commands section do not keep it for names that are array indices: an
  object enumerates such properties first and in numeric order. For a plugin with the
  dependencies and the commands \<^verbatim>\<open>10\<close> and \<^verbatim>\<open>9\<close>, the names are sorted as \<^verbatim>\<open>10\<close>,
  \<^verbatim>\<open>9\<close> and the dependencies section lists them so, while the commands section and the
  record list \<^verbatim>\<open>9\<close> before \<^verbatim>\<open>10\<close>, which is not the lexicographic order.
\<close>

theorem report_order_failing_input:
  "map_option
     (map_sum id (\<lambda>(t, dj). (labels [''foo'', ''dependencies''] t,
                              labels [''foo'', ''commands''] t, map fst dj)))
     (inspect_plugin plain
        (files [(''/a/node_modules/10/package.json'', package ''10'' ''1.0.0''),
                (''/a/node_modules/9/package.json'', package ''9'' ''1.0.0'')])
        (foo [(''10'', Some ''^1.0.0''), (''9'', Some ''^1.0.0'')] [''10'', ''9'']) False)
     = Some (Inr (Some [''10 ^1.0.0 => 1.0.0'', ''9 ^1.0.0 => 1.0.0''],
                  Some [''9'', ''10''], [''9'', ''10'']))
   \<and> sortBy [''10'', ''9''] (\<lambda>d. d) = [''10'', ''9'']
   \<and> sorted [''10 ^1.0.0 => 1.0.0'', ''9 ^1.0.0 => 1.0.0'']
   \<and> \<not> sorted [''9'', ''10'']"
  by code_simp

section \<open>Claims about absent dependencies\<close>

lemma map_of_filter_key:
  "d \<noteq> dep \<Longrightarrow> map_of (filter (\<lambda>(k, r). k \<noteq> dep) xs) d = map_of xs d"
  by (induction xs) auto

lemma map_fst_filter_key:
  "map fst (filter (\<lambda>(k, r). k \<noteq> dep) xs) = filter (\<lambda>d. d \<noteq> dep) (map fst xs)"
  by (induction xs) auto

lemma sortBy_filter: "sortBy (filter P xs) (\<lambda>d. d) = filter P (sortBy xs (\<lambda>d. d))"
  by (simp add: sortBy_def filter_sort)

lemma inspect_header_dependencies:
  "inspect_header c (plugin\<lparr>pjson_dependencies := ds\<rparr>) = inspect_header c plugin"
  by (simp add: inspect_header_def)

lemma findDep_dependencies:
  "findDep fs (plugin\<lparr>pjson_dependencies := ds\<rparr>) d = findDep fs plugin d"
  by (simp add: findDep_def)

lemma inspect_dep_without:
  "d \<noteq> dep \<Longrightarrow>
     inspect_dep c fs (plugin\<lparr>pjson_dependencies :=
         filter (\<lambda>(k, r). k \<noteq> dep) (pjson_dependencies plugin)\<rparr>) verbose d st
       = inspect_dep c fs plugin verbose d st"
  by (simp add: inspect_dep_def findDep_dependencies declared_from_def map_of_filter_key
        del: insert_at.simps cong: option.case_cong sum.case_cong if_cong)

lemma inspect_deps_without:
  "\<forall>d\<in>set ds. d \<noteq> dep \<Longrightarrow>
     inspect_deps c fs (plugin\<lparr>pjson_dependencies :=
         filter (\<lambda>(k, r). k \<noteq> dep) (pjson_dependencies plugin)\<rparr>) verbose ds st
       = inspect_deps c fs plugin verbose ds st"
  by (induction ds arbitrary: st)
    (simp_all add: inspect_dep_without cong: option.case_cong sum.case_cong)

lemma inspect_deps_skip:
  "resolved fs plugin dep = None \<Longrightarrow>
     inspect_deps c fs plugin verbose (filter (\<lambda>d. d \<noteq> dep) ds) st
       = inspect_deps c fs plugin verbose ds st"
  by (induction ds arbitrary: st)
    (simp_all add: inspect_dep_unresolved cong: option.case_cong sum.case_cong)

lemma inspect_plugin_without:
  assumes "resolved fs plugin dep = None"
  shows "inspect_plugin c fs (plugin\<lparr>pjson_dependencies :=
             filter (\<lambda>(k, r). k \<noteq> dep) (pjson_dependencies plugin)\<rparr>) verbose
           = inspect_plugin c fs plugin verbose"
proof -
  have "inspect_deps c fs (plugin\<lparr>pjson_dependencies :=
             filter (\<lambda>(k, r). k \<noteq> dep) (pjson_dependencies plugin)\<rparr>) verbose
          (filter (\<lambda>d. d \<noteq> dep) (sortBy (map fst (pjson_dependencies plugin)) (\<lambda>d. d))) st
      = inspect_deps c fs plugin verbose
          (sortBy (map fst (pjson_dependencies plugin)) (\<lambda>d. d)) st" for st
    by (simp add: inspect_deps_without inspect_deps_skip[OF assms])
  then show ?thesis
    by (simp add: inspect_plugin_def inspect_header_dependencies map_fst_filter_key sortBy_filter
          cong: sum.case_cong)
qed

lemma unresolved_no_entry:
  assumes none: "resolved fs plugin dep = None"
    and res: "inspect_plugin c fs plugin verbose = Some (Inr (tree, depsJson))"
  shows "dep \<notin> fst ` set depsJson"
proof -
  from res inspect_plugin_shape[of fs plugin c verbose]
  have "depsJson = obj_of (map (\<lambda>(d, v, p).
      (d, \<lparr>dep_from = declared_from plugin d, dep_version = v\<rparr>)) (resolved_deps fs plugin))"
    by (cases "printable fs plugin") auto
  moreover have "map_of (obj_of (map (\<lambda>(d, v, p).
      (d, \<lparr>dep_from = declared_from plugin d, dep_version = v\<rparr>)) (resolved_deps fs plugin))) dep
      = None"
    by (simp add: deps_lookup none)
  ultimately have "map_of depsJson dep = None" by simp
  then show ?thesis unfolding map_of_eq_None_iff .
qed

text \<open>
  C4. When no container of the search chain holds a manifest that can be read and parsed,
  \<open>findDep\<close> returns \<^verbatim>\<open>{pkgPath: null, version: null}\<close>, and \<open>inspect\<close> does on the
  plugin what it does on the same plugin with the dependency not declared at all: it
  returns the same tree and the same record, or throws the same error. It does one of the
  two, and a record it returns has no entry under the name of the dependency. It returns
  whenever the versions of the resolved dependencies can be converted to strings.
\<close>

theorem absent_dependency_omitted:
  assumes chain: "search_chain plugin = Some paths"
    and unreadable: "\<forall>p\<in>set paths. \<exists>e. read_version fs (manifest p dep) = Inl e"
  shows "findDep fs plugin dep = Some \<lparr>pkgPath = None, version = None\<rparr>
     \<and> inspect_plugin c fs (plugin\<lparr>pjson_dependencies :=
           filter (\<lambda>(k, r). k \<noteq> dep) (pjson_dependencies plugin)\<rparr>) verbose
        = inspect_plugin c fs plugin verbose
     \<and> (\<exists>r. inspect_plugin c fs plugin verbose = Some r)
     \<and> (\<forall>tree depsJson. inspect_plugin c fs plugin verbose = Some (Inr (tree, depsJson))
           \<longrightarrow> dep \<notin> fst ` set depsJson)
     \<and> (printable fs plugin \<longrightarrow>
          (\<exists>tree depsJson. inspect_plugin c fs plugin verbose = Some (Inr (tree, depsJson))
            \<and> dep \<notin> fst ` set depsJson
            \<and> inspect_plugin c fs (plugin\<lparr>pjson_dependencies :=
                   filter (\<lambda>(k, r). k \<noteq> dep) (pjson_dependencies plugin)\<rparr>) verbose
                = Some (Inr (tree, depsJson))))"
proof -
  from unreadable
  have "findDep_search fs (path_join (split_sep CHR ''/'' dep)) paths
      = \<lparr>pkgPath = None, version = None\<rparr>"
    by (intro findDep_search_none) (simp add: manifest_def candidate_def)
  with chain have found: "findDep fs plugin dep = Some \<lparr>pkgPath = None, version = None\<rparr>"
    by (simp add: findDep_eq)
  then have none: "resolved fs plugin dep = None"
    by (simp add: resolved_def)
  note same = inspect_plugin_without[OF none, of c verbose]
  note entry = unresolved_no_entry[OF none, of c verbose]
  have returns: "\<exists>tree depsJson. inspect_plugin c fs plugin verbose = Some (Inr (tree, depsJson))"
    if "printable fs plugin"
    using that inspect_plugin_shape[of fs plugin c verbose] by auto
  from found same inspect_plugin_returns[of c fs plugin verbose] entry returns
  show ?thesis
    by (simp only:) blast
qed

theorem absent_dependency_omitted_witness:
  "search_chain (foo [(''bar'', Some ''^1.0.0''), (''baz'', Some ''^2.0.0'')] [])
     = Some [''/a/node_modules/foo/node_modules'', ''/a/node_modules'']
   \<and> read_version (files [(''/a/node_modules/bar/package.json'', package ''bar'' ''1.2.0'')])
        (manifest ''/a/node_modules/foo/node_modules'' ''baz'') = Inl (FsError ENOENT)
   \<and> read_version (files [(''/a/node_modules/bar/package.json'', package ''bar'' ''1.2.0'')])
        (manifest ''/a/node_modules'' ''baz'') = Inl (FsError ENOENT)
   \<and> printable (files [(''/a/node_modules/bar/package.json'', package ''bar'' ''1.2.0'')])
        (foo [(''bar'', Some ''^1.0.0''), (''baz'', Some ''^2.0.0'')] [])
   \<and> findDep (files [(''/a/node_modules/bar/package.json'', package ''bar'' ''1.2.0'')])
        (foo [(''bar'', Some ''^1.0.0''), (''baz'', Some ''^2.0.0'')] []) ''baz''
       = Some \<lparr>pkgPath = None, version = None\<rparr>
   \<and> map_option (map_sum id (\<lambda>(t, dj). (labels [''foo'', ''dependencies''] t, dj)))
        (inspect_plugin plain (files [(''/a/node_modules/bar/package.json'', package ''bar'' ''1.2.0'')])
           (foo [(''bar'', Some ''^1.0.0''), (''baz'', Some ''^2.0.0'')] []) False)
       = Some (Inr (Some [''bar ^1.0.0 => 1.2.0''],
                    [(''bar'', \<lparr>dep_from = Some ''^1.0.0'', dep_version = JString ''1.2.0''\<rparr>)]))"
proof -
  let ?fs = "files [(''/a/node_modules/bar/package.json'', package ''bar'' ''1.2.0'')]"
  let ?P = "foo [(''bar'', Some ''^1.0.0''), (''baz'', Some ''^2.0.0'')] []"
  have chain: "search_chain ?P = Some [''/a/node_modules/foo/node_modules'', ''/a/node_modules'']"
    by code_simp
  have inner: "read_version ?fs (manifest ''/a/node_modules/foo/node_modules'' ''baz'')
      = Inl (FsError ENOENT)"
    by code_simp
  have outer: "read_version ?fs (manifest ''/a/node_modules'' ''baz'') = Inl (FsError ENOENT)"
    by code_simp
  have pr: "printable ?fs ?P"
    by code_simp
  from inner outer
  have unreadable: "\<forall>p\<in>set [''/a/node_modules/foo/node_modules'', ''/a/node_modules''].
      \<exists>e. read_version ?fs (manifest p ''baz'') = Inl e"
    by simp
  from absent_dependency_omitted[OF chain unreadable, of plain False]
  have found: "findDep ?fs ?P ''baz'' = Some \<lparr>pkgPath = None, version = None\<rparr>"
    by blast
  have run: "map_option (map_sum id (\<lambda>(t, dj). (labels [''foo'', ''dependencies''] t, dj)))
        (inspect_plugin plain ?fs ?P False)
       = Some (Inr (Some [''bar ^1.0.0 => 1.2.0''],
                    [(''bar'', \<lparr>dep_from = Some ''^1.0.0'', dep_version = JString ''1.2.0''\<rparr>)]))"
    by code_simp
  from chain inner outer pr found run show ?thesis by blast
qed

end
